theory Spec2Isabelle
  imports Complex_Main "HOL-Library.Log_Nat" "HOL-Library.Sublist"
begin

section \<open>Strings\<close>

text \<open>
  A JavaScript string is modelled as a \<open>string\<close>, one \<open>char\<close> per code unit, for
  text whose code units lie below 256. The white space that \<open>String.prototype.trim\<close> and
  \<open>parseInt\<close> strip is then TAB, LF, VT, FF, CR, SPACE and NBSP.
\<close>

definition dquote :: char where
  "dquote = CHR 0x22"

definition LF :: char where
  "LF = CHR 0x0A"

definition CR :: char where
  "CR = CHR 0x0D"

definition isWhiteSpace :: "char \<Rightarrow> bool" where
  "isWhiteSpace c \<longleftrightarrow>
     c = CHR 0x09 \<or> c = CHR 0x0A \<or> c = CHR 0x0B \<or> c = CHR 0x0C \<or> c = CHR 0x0D \<or>
     c = CHR 0x20 \<or> c = CHR 0xA0"

definition trim :: "string \<Rightarrow> string" where
  "trim s = rev (dropWhile isWhiteSpace (rev (dropWhile isWhiteSpace s)))"

text \<open>\<open>s.split(c)\<close> for a one-character separator: never the empty list.\<close>

fun splitOn :: "char \<Rightarrow> string \<Rightarrow> string list" where
  "splitOn c [] = [[]]"
| "splitOn c (x # xs) =
     (if x = c then [] # splitOn c xs
      else (case splitOn c xs of w # ws \<Rightarrow> (x # w) # ws | [] \<Rightarrow> [[x]]))"

text \<open>The decimal rendering of a number in a template literal.\<close>

definition digitChar :: "nat \<Rightarrow> char" where
  "digitChar d = ''0123456789'' ! d"

fun showNat :: "nat \<Rightarrow> string" where
  "showNat n = (if n < 10 then [digitChar n] else showNat (n div 10) @ [digitChar (n mod 10)])"

declare showNat.simps [simp del]

section \<open>The line tokenizer\<close>

text \<open>
  \<open>splitCSVLine\<close>: the \<open>for\<close> loop over the index \<open>i\<close> is a recursion over the
  characters still to read, with the fields pushed so far, the field buffer and the
  \<open>inQuotes\<close> flag as the loop state. The escaped quote consumes two characters.
\<close>

fun scanLine :: "string \<Rightarrow> string list \<Rightarrow> string \<Rightarrow> bool \<Rightarrow> string list" where
  "scanLine [] fields field inQuotes = fields @ [field]"
| "scanLine (ch # rest) fields field inQuotes =
     (if ch = dquote then
        (if inQuotes \<and> rest \<noteq> [] \<and> hd rest = dquote
         then scanLine (tl rest) fields (field @ [dquote]) inQuotes
         else scanLine rest fields field (\<not> inQuotes))
      else if ch = CHR '','' \<and> \<not> inQuotes then scanLine rest (fields @ [field]) [] inQuotes
      else scanLine rest fields (field @ [ch]) inQuotes)"

definition splitCSVLine :: "string \<Rightarrow> string list" where
  "splitCSVLine line = map trim (scanLine line [] [] False)"

section \<open>Records\<close>

text \<open>
  A row object is a tree: a leaf is a string, an inner node an object. An object is the
  list of its own properties in insertion order; \<open>setProp\<close> is the assignment
  \<open>obj[key] = value\<close>, which keeps the place of a key already present. (JavaScript
  enumerates integer-like keys first; nothing below depends on the order of keys.)
  Only own properties are modelled: a path segment \<open>__proto__\<close> addresses the prototype
  object, which the tree does not hold.
\<close>

datatype jval = JStr string | JObj "(string \<times> jval) list"

type_synonym jobj = "(string \<times> jval) list"

fun getProp :: "jobj \<Rightarrow> string \<Rightarrow> jval option" where
  "getProp [] key = None"
| "getProp ((k, v) # kvs) key = (if k = key then Some v else getProp kvs key)"

fun setProp :: "jobj \<Rightarrow> string \<Rightarrow> jval \<Rightarrow> jobj" where
  "setProp [] key value = [(key, value)]"
| "setProp ((k, v) # kvs) key value =
     (if k = key then (k, value) # kvs else (k, v) # setProp kvs key value)"

text \<open>
  \<open>setNestedProperty\<close>: \<open>keys.forEach\<close> walks the path; the last key is assigned, and
  an intermediate key whose value is missing, falsy or not an object gets a fresh \<open>{}\<close>.
  The in-place mutation of the nested object is the rebuilt subtree.
\<close>

fun setPath :: "jobj \<Rightarrow> string list \<Rightarrow> jval \<Rightarrow> jobj" where
  "setPath obj [] value = obj"
| "setPath obj [key] value = setProp obj key value"
| "setPath obj (key # keys) value =
     setProp obj key
       (JObj (setPath (case getProp obj key of Some (JObj sub) \<Rightarrow> sub | _ \<Rightarrow> []) keys value))"

definition setNestedProperty :: "jobj \<Rightarrow> string \<Rightarrow> jval \<Rightarrow> jobj" where
  "setNestedProperty obj keyPath value = setPath obj (splitOn CHR ''.'' keyPath) value"

text \<open>
  \<open>String(v)\<close> and the template literal \<open>${v}\<close>. A string is itself. An object is
  converted through its \<open>toString\<close>: the inherited one gives \<open>[object Object]\<close>; an own
  property \<open>toString\<close> of a record is a string or an object, not a function, and then the
  conversion throws a \<open>TypeError\<close> (here \<open>None\<close>).
\<close>

fun toStr :: "jval \<Rightarrow> string option" where
  "toStr (JStr s) = Some s"
| "toStr (JObj kvs) =
     (if getProp kvs ''toString'' = None then Some ''[object Object]'' else None)"

text \<open>Truthiness: the empty string is falsy, every object is truthy.\<close>

fun truthy :: "jval \<Rightarrow> bool" where
  "truthy (JStr s) = (s \<noteq> [])"
| "truthy (JObj kvs) = True"

section \<open>\<open>JSON.stringify\<close>\<close>

definition hexDigit :: "nat \<Rightarrow> char" where
  "hexDigit d = ''0123456789abcdef'' ! d"

text \<open>\<open>QuoteJSONString\<close> on one code unit below 256.\<close>

definition escapeChar :: "char \<Rightarrow> string" where
  "escapeChar c =
     (if c = CHR 0x08 then [CHR 0x5C, CHR ''b'']
      else if c = CHR 0x09 then [CHR 0x5C, CHR ''t'']
      else if c = CHR 0x0A then [CHR 0x5C, CHR ''n'']
      else if c = CHR 0x0C then [CHR 0x5C, CHR ''f'']
      else if c = CHR 0x0D then [CHR 0x5C, CHR ''r'']
      else if c = dquote then [CHR 0x5C, dquote]
      else if c = CHR 0x5C then [CHR 0x5C, CHR 0x5C]
      else if of_char c < (32 :: nat)
        then [CHR 0x5C, CHR ''u'', CHR ''0'', CHR ''0'',
              hexDigit (of_char c div 16), hexDigit (of_char c mod 16)]
      else [c])"

definition quoteJSON :: "string \<Rightarrow> string" where
  "quoteJSON s = dquote # concat (map escapeChar s) @ [dquote]"

fun joinComma :: "string list \<Rightarrow> string" where
  "joinComma [] = []"
| "joinComma [s] = s"
| "joinComma (s # ss) = s @ CHR '','' # joinComma ss"

primrec stringify :: "jval \<Rightarrow> string" where
  "stringify (JStr s) = quoteJSON s"
| "stringify (JObj kvs) =
     CHR ''{'' #
     joinComma (map (\<lambda>(k, s). quoteJSON k @ CHR '':'' # s) (map (map_prod id stringify) kvs)) @
     [CHR ''}'']"

section \<open>The document parser\<close>

fun replaceCRLF :: "string \<Rightarrow> string" where
  "replaceCRLF (a # b # cs) =
     (if a = CR \<and> b = LF then LF # replaceCRLF cs else a # replaceCRLF (b # cs))"
| "replaceCRLF cs = cs"

definition replaceCR :: "string \<Rightarrow> string" where
  "replaceCR s = map (\<lambda>c. if c = CR then LF else c) s"

text \<open>The non-blank lines of the text, after newline normalisation.\<close>

definition nonBlankLines :: "string \<Rightarrow> string list" where
  "nonBlankLines data =
     filter (\<lambda>l. length (trim l) > 0) (splitOn LF (replaceCR (replaceCRLF data)))"

text \<open>The \<open>while\<close> loop that pads a short row with empty strings.\<close>

definition padFields :: "nat \<Rightarrow> string list \<Rightarrow> string list" where
  "padFields n fields = fields @ replicate (n - length fields) []"

text \<open>\<open>headers.forEach((key, idx) => setNestedProperty(row, key, fields[idx] ?? ''))\<close>\<close>

fun assignHeaders :: "jobj \<Rightarrow> string list \<Rightarrow> nat \<Rightarrow> string list \<Rightarrow> jobj" where
  "assignHeaders row [] idx fields = row"
| "assignHeaders row (key # keys) idx fields =
     assignHeaders
       (setNestedProperty row key (JStr (if idx < length fields then fields ! idx else [])))
       keys (Suc idx) fields"

text \<open>The loop \<open>for (j = headers.length; j < fields.length; j++)\<close> filling \<open>extra\<close>.\<close>

function collectExtras :: "jobj \<Rightarrow> nat \<Rightarrow> nat \<Rightarrow> string list \<Rightarrow> jobj" where
  "collectExtras extra n j fields =
     (if j < length fields
      then collectExtras (setProp extra (''_extra_'' @ showNat (j - n + 1)) (JStr (fields ! j)))
             n (Suc j) fields
      else extra)"
  by pat_completeness auto
termination
  by (relation "measure (\<lambda>(extra, n, j, fields). length fields - j)") auto

declare collectExtras.simps [simp del]

definition addExtras :: "jobj \<Rightarrow> jobj \<Rightarrow> jobj" where
  "addExtras row extra = (if length extra \<noteq> 0 then setProp row ''__extras'' (JObj extra) else row)"

definition buildPadded :: "string list \<Rightarrow> string list \<Rightarrow> jobj" where
  "buildPadded hs fs =
     (if length fs > length hs
      then addExtras (assignHeaders [] hs 0 fs) (collectExtras [] (length hs) (length hs) fs)
      else assignHeaders [] hs 0 fs)"

definition buildRow :: "string list \<Rightarrow> string list \<Rightarrow> jobj" where
  "buildRow hs fs =
     buildPadded hs (if length fs < length hs then padFields (length hs) fs else fs)"

text \<open>The test that keeps a row: some top-level value has content.\<close>

definition valueNonEmpty :: "jval \<Rightarrow> bool" where
  "valueNonEmpty val =
     (case val of
        JObj kvs \<Rightarrow>
          length (trim (filter (\<lambda>c. c \<noteq> dquote \<and> c \<noteq> CHR ''{'' \<and> c \<noteq> CHR ''}'')
                          (stringify val))) > 0
      | JStr s \<Rightarrow> length (trim s) > 0)"

definition anyNonEmpty :: "jobj \<Rightarrow> bool" where
  "anyNonEmpty row = list_ex valueNonEmpty (map snd row)"

record parsed =
  headers :: "string list"
  records :: "jobj list"

definition parseRows :: "string list \<Rightarrow> string list \<Rightarrow> parsed" where
  "parseRows hs lines =
     \<lparr>headers = hs,
      records = filter anyNonEmpty (map (\<lambda>raw. buildRow hs (splitCSVLine raw)) lines)\<rparr>"

definition parseCSV :: "string \<Rightarrow> parsed" where
  "parseCSV data =
     (if data = [] \<or> trim data = [] then \<lparr>headers = [], records = []\<rparr>
      else (case nonBlankLines data of
              [] \<Rightarrow> \<lparr>headers = [], records = []\<rparr>
            | headerLine # lines \<Rightarrow> parseRows (map trim (splitCSVLine headerLine)) lines))"

section \<open>\<open>parseInt\<close> without a radix\<close>

text \<open>
  \<open>parseInt(s)\<close>: leading white space is stripped, then an optional sign, then a prefix
  \<open>0x\<close> or \<open>0X\<close> selects radix 16 (radix 10 otherwise); the longest run of digits of
  that radix is the number, and an empty run is \<open>NaN\<close> (here \<open>None\<close>). The result is
  the mathematical value of the digits; JavaScript rounds it to a double above \<open>2^53\<close>.
\<close>

definition digitOfCode :: "nat \<Rightarrow> nat option" where
  "digitOfCode n =
     (if 48 \<le> n \<and> n \<le> 57 then Some (n - 48)
      else if 97 \<le> n \<and> n \<le> 122 then Some (n - 87)
      else if 65 \<le> n \<and> n \<le> 90 then Some (n - 55)
      else None)"

definition digitValue :: "char \<Rightarrow> nat option" where
  "digitValue c = digitOfCode (of_char c)"

definition isRadixDigit :: "nat \<Rightarrow> char \<Rightarrow> bool" where
  "isRadixDigit R c = (case digitValue c of Some d \<Rightarrow> d < R | None \<Rightarrow> False)"

fun digitsValue :: "nat \<Rightarrow> nat \<Rightarrow> string \<Rightarrow> nat" where
  "digitsValue R acc [] = acc"
| "digitsValue R acc (c # cs) = digitsValue R (acc * R + the (digitValue c)) cs"

text \<open>The steps of \<open>parseInt\<close>, innermost first: the digits, the radix, the sign.\<close>

definition parseDigits :: "nat \<Rightarrow> string \<Rightarrow> nat option" where
  "parseDigits R S2 =
     (if takeWhile (isRadixDigit R) S2 = [] then None
      else Some (digitsValue R 0 (takeWhile (isRadixDigit R) S2)))"

definition hexPrefix :: "string \<Rightarrow> bool" where
  "hexPrefix S1 \<longleftrightarrow>
     length S1 \<ge> 2 \<and> S1 ! 0 = CHR ''0'' \<and> (S1 ! 1 = CHR ''x'' \<or> S1 ! 1 = CHR ''X'')"

definition parseMagnitude :: "string \<Rightarrow> nat option" where
  "parseMagnitude S1 = (if hexPrefix S1 then parseDigits 16 (drop 2 S1) else parseDigits 10 S1)"

definition parseSigned :: "string \<Rightarrow> int option" where
  "parseSigned S0 =
     (if S0 \<noteq> [] \<and> hd S0 = CHR ''-'' then map_option (\<lambda>n. - int n) (parseMagnitude (tl S0))
      else if S0 \<noteq> [] \<and> hd S0 = CHR ''+'' then map_option int (parseMagnitude (tl S0))
      else map_option int (parseMagnitude S0))"

definition parseInt :: "string \<Rightarrow> int option" where
  "parseInt inputString = parseSigned (dropWhile isWhiteSpace inputString)"

section \<open>Validation and routing of one record\<close>

record dbrow =
  row_name :: string
  row_age :: int
  row_address :: jobj
  row_additional :: jobj

datatype thrown = Thrown string

datatype routed = Skip string | Insert dbrow | Throws thrown

definition typeError :: thrown where
  "typeError = Thrown ''TypeError: Cannot convert object to primitive value''"

text \<open>\<open>rec?.name?.firstName ?? ''\<close>, and likewise for the other optional reads.\<close>

definition nameField :: "jobj \<Rightarrow> string \<Rightarrow> jval" where
  "nameField rec key =
     (case getProp rec ''name'' of
        Some (JObj nm) \<Rightarrow> (case getProp nm key of Some v \<Rightarrow> v | None \<Rightarrow> JStr [])
      | _ \<Rightarrow> JStr [])"

definition ageField :: "jobj \<Rightarrow> jval" where
  "ageField rec = (case getProp rec ''age'' of Some v \<Rightarrow> v | None \<Rightarrow> JStr [])"

text \<open>
  The body of the loop of \<open>uploadToDB\<close> up to the query: the two checks, then the name,
  then the destructuring \<open>{ name: _n, age: _a, address = {}, ...rest }\<close>, whose \<open>rest\<close>
  holds every property not named in the pattern. The conversions \<open>String(ageRaw)\<close>,
  \<open>String(firstName)\<close> and \<open>String(lastName)\<close> stand outside the \<open>try\<close> block.
\<close>

definition buildDbRow :: "jobj \<Rightarrow> string \<Rightarrow> string \<Rightarrow> int \<Rightarrow> dbrow" where
  "buildDbRow rec firstStr lastStr a =
     \<lparr>row_name = trim firstStr @ '' '' @ trim lastStr,
      row_age = a,
      row_address = (case getProp rec ''address'' of Some (JObj addr) \<Rightarrow> addr | _ \<Rightarrow> []),
      row_additional =
        filter (\<lambda>(k, v). k \<noteq> ''name'' \<and> k \<noteq> ''age'' \<and> k \<noteq> ''address'') rec\<rparr>"

definition routeFields :: "jobj \<Rightarrow> jval \<Rightarrow> jval \<Rightarrow> jval \<Rightarrow> routed" where
  "routeFields rec firstName lastName ageRaw =
     (if \<not> truthy firstName \<or> \<not> truthy lastName
      then Skip ''Missing name.firstName or name.lastName''
      else (case toStr ageRaw of
              None \<Rightarrow> Throws typeError
            | Some ageStr \<Rightarrow>
                (case parseInt (trim ageStr) of
                   None \<Rightarrow> Skip (''Invalid age: '' @ [dquote] @ ageStr @ [dquote])
                 | Some a \<Rightarrow>
                     (case toStr firstName of
                        None \<Rightarrow> Throws typeError
                      | Some firstStr \<Rightarrow>
                          (case toStr lastName of
                             None \<Rightarrow> Throws typeError
                           | Some lastStr \<Rightarrow> Insert (buildDbRow rec firstStr lastStr a))))))"

definition routeRecord :: "jobj \<Rightarrow> routed" where
  "routeRecord rec =
     routeFields rec (nameField rec ''firstName'') (nameField rec ''lastName'') (ageField rec)"

section \<open>The ingestion run\<close>

text \<open>
  The store is a state machine: one \<open>INSERT\<close> maps the store's state and the row to the
  new state and to \<open>None\<close> when the query resolves, or to the message of the error it
  rejects with.
\<close>

type_synonym 'st pool = "'st \<Rightarrow> dbrow \<Rightarrow> string option \<times> 'st"

record summary =
  insertedCount :: nat
  skipped :: "(nat \<times> string) list"
  totalRows :: nat

text \<open>
  The \<open>for\<close> loop over the records, with its three counters as arguments. An error thrown
  outside the \<open>try\<close> block ends the loop and leaves the function.
\<close>

fun uploadLoop ::
  "'st pool \<Rightarrow> jobj list \<Rightarrow> 'st \<Rightarrow> nat \<Rightarrow> (nat \<times> string) list \<Rightarrow> nat
     \<Rightarrow> (thrown + nat \<times> (nat \<times> string) list) \<times> 'st" where
  "uploadLoop query [] st inserted skips lineIndex = (Inr (inserted, skips), st)"
| "uploadLoop query (rec # recs) st inserted skips lineIndex =
     (case routeRecord rec of
        Skip reason \<Rightarrow>
          uploadLoop query recs st inserted (skips @ [(lineIndex, reason)]) (lineIndex + 1)
      | Throws err \<Rightarrow> (Inl err, st)
      | Insert row \<Rightarrow>
          (case query st row of
             (None, st') \<Rightarrow> uploadLoop query recs st' (inserted + 1) skips (lineIndex + 1)
           | (Some msg, st') \<Rightarrow>
               uploadLoop query recs st' inserted
                 (skips @ [(lineIndex, ''DB insert error: '' @ msg)]) (lineIndex + 1)))"

text \<open>
  The file system as \<open>uploadToDB\<close> sees it: \<open>existsSync\<close> is false, or the path exists
  and \<open>readFileSync\<close> throws, or it returns the text.
\<close>

datatype fileState = NoFile | Unreadable string | FileText string

definition uploadParsed :: "parsed \<Rightarrow> 'st pool \<Rightarrow> 'st \<Rightarrow> (thrown + summary) \<times> 'st" where
  "uploadParsed p query st =
     (if length (headers p) = 0 \<or> length (records p) = 0
      then (Inr \<lparr>insertedCount = 0, skipped = [], totalRows = length (records p)\<rparr>, st)
      else (case uploadLoop query (records p) st 0 [] 1 of
              (Inl err, st') \<Rightarrow> (Inl err, st')
            | (Inr (inserted, skips), st') \<Rightarrow>
                (Inr \<lparr>insertedCount = inserted, skipped = skips,
                      totalRows = length (records p)\<rparr>, st')))"

definition uploadToDB ::
  "string option \<Rightarrow> (string \<Rightarrow> fileState) \<Rightarrow> 'st pool \<Rightarrow> 'st \<Rightarrow> (thrown + summary) \<times> 'st" where
  "uploadToDB CSV_FILE_PATH fs query st =
     (case CSV_FILE_PATH of
        None \<Rightarrow> (Inl (Thrown ''CSV_FILE_PATH not set in .env''), st)
      | Some filePath \<Rightarrow>
          if filePath = [] then (Inl (Thrown ''CSV_FILE_PATH not set in .env''), st)
          else (case fs filePath of
                  NoFile \<Rightarrow> (Inr \<lparr>insertedCount = 0, skipped = [], totalRows = 0\<rparr>, st)
                | Unreadable msg \<Rightarrow> (Inl (Thrown msg), st)
                | FileText csvData \<Rightarrow> uploadParsed (parseCSV csvData) query st))"

section \<open>The age distribution\<close>

text \<open>
  A Number is an IEEE 754 double. \<open>fl\<close> rounds a rational to the nearest double, ties
  to even, below the overflow threshold; \<open>/\<close> and \<open>*\<close> round their exact result.
\<close>

definition expo :: "rat \<Rightarrow> int" where
  "expo x = (if 1 \<le> x then bitlen \<lfloor>x\<rfloor> - 1 else - bitlen (\<lceil>1 / x\<rceil> - 1))"

definition tieToEven :: "rat \<Rightarrow> int \<Rightarrow> int" where
  "tieToEven y f =
     (if y - of_int f < 1 / 2 then f
      else if 1 / 2 < y - of_int f then f + 1
      else if even f then f else f + 1)"

definition roundHalfEven :: "rat \<Rightarrow> int" where
  "roundHalfEven y = tieToEven y \<lfloor>y\<rfloor>"

definition roundToUnit :: "rat \<Rightarrow> rat \<Rightarrow> rat" where
  "roundToUnit u x = sgn x * of_int (roundHalfEven (\<bar>x\<bar> / u)) * u"

definition fl :: "rat \<Rightarrow> rat" where
  "fl x = (if x = 0 then 0 else roundToUnit (2 powi (max (expo \<bar>x\<bar>) (- 1022) - 52)) x)"

text \<open>\<open>Math.round\<close>: the nearest integer, a tie going up.\<close>

definition mathRound :: "rat \<Rightarrow> int" where
  "mathRound x = \<lfloor>x + 1 / 2\<rfloor>"

definition percentOf :: "nat \<Rightarrow> nat \<Rightarrow> int" where
  "percentOf val tot = mathRound (fl (fl (of_nat val / of_nat tot) * 100))"

record groups =
  lt20 :: nat
  g20_40 :: nat
  g40_60 :: nat
  gt60 :: nat

text \<open>The \<open>if\<close>/\<open>else if\<close> chain that counts one age.\<close>

definition countAge :: "groups \<Rightarrow> int \<Rightarrow> groups" where
  "countAge g a =
     (if a \<le> 20 then g\<lparr>lt20 := lt20 g + 1\<rparr>
      else if a > 20 \<and> a \<le> 40 then g\<lparr>g20_40 := g20_40 g + 1\<rparr>
      else if a > 40 \<and> a \<le> 60 then g\<lparr>g40_60 := g40_60 g + 1\<rparr>
      else if a > 60 then g\<lparr>gt60 := gt60 g + 1\<rparr>
      else g)"

definition countGroups :: "int list \<Rightarrow> groups" where
  "countGroups ages = foldl countAge \<lparr>lt20 = 0, g20_40 = 0, g40_60 = 0, gt60 = 0\<rparr> ages"

record percents =
  p_lt20 :: int
  p_20_40 :: int
  p_40_60 :: int
  p_gt60 :: int

text \<open>\<open>printAgeDistribution\<close> on the rows of \<open>SELECT age FROM users\<close>: nothing when empty.\<close>

definition groupPercents :: "groups \<Rightarrow> nat \<Rightarrow> percents" where
  "groupPercents g tot =
     \<lparr>p_lt20 = percentOf (lt20 g) tot,
      p_20_40 = percentOf (g20_40 g) tot,
      p_40_60 = percentOf (g40_60 g) tot,
      p_gt60 = percentOf (gt60 g) tot\<rparr>"

definition printAgeDistribution :: "int list \<Rightarrow> percents option" where
  "printAgeDistribution ages =
     (if length ages = 0 then None else Some (groupPercents (countGroups ages) (length ages)))"

section \<open>Notions used in the statements\<close>

text \<open>
  The outcome of each record of a run, in order: \<open>None\<close> for a row the store took,
  the skip reason otherwise. The store's state is threaded from row to row. (A record
  whose routing throws ends the list.)
\<close>

fun rowOutcomes :: "'st pool \<Rightarrow> jobj list \<Rightarrow> 'st \<Rightarrow> string option list" where
  "rowOutcomes query [] st = []"
| "rowOutcomes query (rec # recs) st =
     (case routeRecord rec of
        Skip reason \<Rightarrow> Some reason # rowOutcomes query recs st
      | Throws err \<Rightarrow> []
      | Insert row \<Rightarrow>
          (case query st row of
             (None, st') \<Rightarrow> None # rowOutcomes query recs st'
           | (Some msg, st') \<Rightarrow> Some (''DB insert error: '' @ msg) # rowOutcomes query recs st'))"

text \<open>A record at which the loop throws: a conversion to a string fails.\<close>

definition routeThrows :: "jobj \<Rightarrow> bool" where
  "routeThrows rec = (case routeRecord rec of Throws err \<Rightarrow> True | _ \<Rightarrow> False)"

definition ownsToString :: "jval \<Rightarrow> bool" where
  "ownsToString v = (case v of JObj kvs \<Rightarrow> getProp kvs ''toString'' \<noteq> None | JStr s \<Rightarrow> False)"

text \<open>The skip list that a list of outcomes stands for, numbered from \<open>lineIndex\<close>.\<close>

fun skipEntries :: "nat \<Rightarrow> string option list \<Rightarrow> (nat \<times> string) list" where
  "skipEntries lineIndex [] = []"
| "skipEntries lineIndex (None # outs) = skipEntries (lineIndex + 1) outs"
| "skipEntries lineIndex (Some reason # outs) = (lineIndex, reason) # skipEntries (lineIndex + 1) outs"

text \<open>Environments for the examples: stores and file systems with a fixed behaviour.\<close>

definition acceptingPool :: "unit pool" where
  "acceptingPool st row = (None, st)"

definition failingPool :: "string \<Rightarrow> unit pool" where
  "failingPool msg st row = (Some msg, st)"

definition singleFile :: "string \<Rightarrow> string \<Rightarrow> string \<Rightarrow> fileState" where
  "singleFile path content p = (if p = path then FileText content else NoFile)"

definition directoryAt :: "string \<Rightarrow> string \<Rightarrow> fileState" where
  "directoryAt path p =
     (if p = path then Unreadable ''EISDIR: illegal operation on a directory, read'' else NoFile)"

text \<open>A sample file: a valid row, a bad age, a missing first name, a negative age.\<close>

definition sampleCSV :: string where
  "sampleCSV =
     ''name.firstName,name.lastName,age,address.city,gender\<newline>Rohit,Prasad,35,Pune,male\<newline>Asha,Rao,abc,Goa,female\<newline>,Nair,41,Kochi,male\<newline>Minus,Five,-5,Agra,female''"

definition sampleRecord :: "string \<Rightarrow> string \<Rightarrow> string \<Rightarrow> string \<Rightarrow> string \<Rightarrow> jobj" where
  "sampleRecord given family years city gender =
     [(''name'', JObj [(''firstName'', JStr given), (''lastName'', JStr family)]),
      (''age'', JStr years),
      (''address'', JObj [(''city'', JStr city)]),
      (''gender'', JStr gender)]"

definition sampleRecords :: "jobj list" where
  "sampleRecords =
     [sampleRecord ''Rohit'' ''Prasad'' ''35'' ''Pune'' ''male'',
      sampleRecord ''Asha'' ''Rao'' ''abc'' ''Goa'' ''female'',
      sampleRecord [] ''Nair'' ''41'' ''Kochi'' ''male'',
      sampleRecord ''Minus'' ''Five'' ''-5'' ''Agra'' ''female'']"

definition sampleRow :: "string \<Rightarrow> int \<Rightarrow> string \<Rightarrow> string \<Rightarrow> dbrow" where
  "sampleRow nm years city gender =
     \<lparr>row_name = nm, row_age = years, row_address = [(''city'', JStr city)],
      row_additional = [(''gender'', JStr gender)]\<rparr>"


definition namesPresent :: "jobj \<Rightarrow> bool" where
  "namesPresent rec \<longleftrightarrow>
     truthy (nameField rec ''firstName'') \<and> truthy (nameField rec ''lastName'') \<and>
     toStr (nameField rec ''firstName'') \<noteq> None \<and> toStr (nameField rec ''lastName'') \<noteq> None"

text \<open>Every string leaf of a value is its own trim.\<close>

primrec leavesTrimmed :: "jval \<Rightarrow> bool" where
  "leavesTrimmed (JStr s) = (trim s = s)"
| "leavesTrimmed (JObj kvs) = list_all snd (map (map_prod id leavesTrimmed) kvs)"

text \<open>The characters \<open>0\<close> to \<open>9\<close>, and the number a run of them denotes in base ten.\<close>

definition isDecimalDigit :: "char \<Rightarrow> bool" where
  "isDecimalDigit c \<longleftrightarrow> 48 \<le> (of_char c :: nat) \<and> (of_char c :: nat) \<le> 57"

definition decimalValue :: "string \<Rightarrow> nat" where
  "decimalValue ds = foldl (\<lambda>acc c. acc * 10 + (of_char c - 48)) 0 ds"

text \<open>
  The age strings that pass: after leading white space and an optional sign comes a
  decimal digit, or \<open>0x\<close>/\<open>0X\<close> and then a hexadecimal digit.
\<close>

definition unsignedPart :: "string \<Rightarrow> string" where
  "unsignedPart S = (if S \<noteq> [] \<and> (hd S = CHR ''+'' \<or> hd S = CHR ''-'') then tl S else S)"

definition startsNumber :: "string \<Rightarrow> bool" where
  "startsNumber body \<longleftrightarrow>
     (if hexPrefix body then length body > 2 \<and> isRadixDigit 16 (body ! 2)
      else body \<noteq> [] \<and> isDecimalDigit (hd body))"

definition ageAccepted :: "string \<Rightarrow> bool" where
  "ageAccepted s \<longleftrightarrow> startsNumber (unsignedPart (dropWhile isWhiteSpace s))"

text \<open>
  The records at which a conversion to a string is reached and fails: both name values
  pass the name check, and either the age is an object owning a key \<open>toString\<close>, or the
  age is a string that passes the age check and one of the two name values is an object
  owning a key \<open>toString\<close>.
\<close>

definition conversionFails :: "jobj \<Rightarrow> bool" where
  "conversionFails rec \<longleftrightarrow>
     truthy (nameField rec ''firstName'') \<and> truthy (nameField rec ''lastName'') \<and>
     (ownsToString (ageField rec) \<or>
      (case ageField rec of JStr raw \<Rightarrow> ageAccepted (trim raw) | JObj kvs \<Rightarrow> False) \<and>
      (ownsToString (nameField rec ''firstName'') \<or> ownsToString (nameField rec ''lastName'')))"

text \<open>
  Reading a record back along a path of keys, and along the dot path of a header key.
\<close>

fun getPath :: "jobj \<Rightarrow> string list \<Rightarrow> jval option" where
  "getPath obj [] = None"
| "getPath obj [key] = getProp obj key"
| "getPath obj (key # keys) =
     (case getProp obj key of Some (JObj sub) \<Rightarrow> getPath sub keys | _ \<Rightarrow> None)"

definition readBack :: "jobj \<Rightarrow> string \<Rightarrow> jval option" where
  "readBack rec keyPath = getPath rec (splitOn CHR ''.'' keyPath)"

text \<open>
  Paths that do not collide: no path is a prefix of another one of the list (so the
  paths are distinct, and no path ends where another one passes through).
\<close>

fun independentPaths :: "string list list \<Rightarrow> bool" where
  "independentPaths [] = True"
| "independentPaths (p # ps) =
     ((\<forall>q \<in> set ps. \<not> prefix p q \<and> \<not> prefix q p) \<and> independentPaths ps)"

text \<open>
  Header keys within the model and free of collisions: independent dot paths, no segment
  \<open>__proto__\<close> (which would address the prototype object).
\<close>

definition plainHeaders :: "string list \<Rightarrow> bool" where
  "plainHeaders hs \<longleftrightarrow>
     independentPaths (map (splitOn CHR ''.'') hs) \<and>
     (\<forall>h \<in> set hs. ''__proto__'' \<notin> set (splitOn CHR ''.'' h))"

text \<open>
  Header keys none of whose dot paths has a segment \<open>__proto__\<close>; and the header keys of
  the file that a run reads (none when it reads no file).
\<close>

definition protoFree :: "string list \<Rightarrow> bool" where
  "protoFree hs = list_all (\<lambda>h. ''__proto__'' \<notin> set (splitOn CHR ''.'' h)) hs"

definition configuredHeaders :: "string option \<Rightarrow> (string \<Rightarrow> fileState) \<Rightarrow> string list" where
  "configuredHeaders cfg fs =
     (case cfg of
        None \<Rightarrow> []
      | Some filePath \<Rightarrow>
          (case fs filePath of FileText text \<Rightarrow> headers (parseCSV text) | _ \<Rightarrow> []))"

text \<open>The field at a position of a row, the empty string past its end.\<close>

definition fieldAt :: "string list \<Rightarrow> nat \<Rightarrow> string" where
  "fieldAt fs i = (if i < length fs then fs ! i else [])"

text \<open>The data lines of a text: its non-blank lines after the header line.\<close>

definition dataLines :: "string \<Rightarrow> string list" where
  "dataLines data = tl (nonBlankLines data)"

text \<open>
  The percentage in exact arithmetic, rounded half up, and the ties: the counts whose
  exact percentage lies halfway between two integers.
\<close>

definition exactPercent :: "nat \<Rightarrow> nat \<Rightarrow> int" where
  "exactPercent val tot = \<lfloor>(of_nat val / of_nat tot :: rat) * 100 + 1 / 2\<rfloor>"

definition percentTie :: "nat \<Rightarrow> nat \<Rightarrow> bool" where
  "percentTie val tot \<longleftrightarrow> frac ((of_nat val / of_nat tot :: rat) * 100) = 1 / 2"

text \<open>
  A reported percentage that agrees with the exact one: equal to it off the ties, equal
  to it or one less at a tie.
\<close>

definition halfUpOffTies :: "int \<Rightarrow> nat \<Rightarrow> nat \<Rightarrow> bool" where
  "halfUpOffTies p val tot \<longleftrightarrow>
     (if percentTie val tot then p = exactPercent val tot \<or> p = exactPercent val tot - 1
      else p = exactPercent val tot)"

section \<open>Properties of \<open>trim\<close>\<close>

lemma trim_Nil [simp]: "trim [] = []"
  by (simp add: trim_def)

lemma trim_fixed:
  assumes "s = [] \<or> (\<not> isWhiteSpace (hd s) \<and> \<not> isWhiteSpace (last s))"
  shows "trim s = s"
proof (cases "s = []")
  case True
  then show ?thesis by simp
next
  case False
  with assms have h: "\<not> isWhiteSpace (hd s)" and l: "\<not> isWhiteSpace (last s)" by auto
  from False h have a: "dropWhile isWhiteSpace s = s"
    by (cases s) auto
  from False l have b: "dropWhile isWhiteSpace (rev s) = rev s"
    by (cases "rev s") (auto simp: last_rev hd_rev)
  show ?thesis by (simp add: trim_def a b)
qed

lemma trim_ends:
  "trim s = [] \<or> (\<not> isWhiteSpace (hd (trim s)) \<and> \<not> isWhiteSpace (last (trim s)))"
proof (cases "trim s = []")
  case True
  then show ?thesis by simp
next
  case False
  define u where "u = dropWhile isWhiteSpace s"
  define v where "v = dropWhile isWhiteSpace (rev u)"
  have t: "trim s = rev v" by (simp add: trim_def u_def v_def)
  with False have vne: "v \<noteq> []" by simp
  then have hv: "\<not> isWhiteSpace (hd v)"
    unfolding v_def by (rule hd_dropWhile)
  have split: "rev u = takeWhile isWhiteSpace (rev u) @ v"
    by (simp add: v_def)
  from vne split have une: "u \<noteq> []" by auto
  then have hu: "\<not> isWhiteSpace (hd u)"
    unfolding u_def by (rule hd_dropWhile)
  from split vne have "last (rev u) = last v"
    by (metis last_appendR)
  with une have lv: "last v = hd u" by (simp add: last_rev)
  from vne have "hd (trim s) = last v" "last (trim s) = hd v"
    by (simp_all add: t hd_rev last_rev)
  with hv hu lv show ?thesis by simp
qed

lemma trim_idem [simp]: "trim (trim s) = trim s"
  using trim_ends [of s] by (rule trim_fixed)

lemma dropWhile_keeps: "c \<in> set s \<Longrightarrow> \<not> P c \<Longrightarrow> c \<in> set (dropWhile P s)"
  by (induction s) auto

lemma trim_keeps: "c \<in> set s \<Longrightarrow> \<not> isWhiteSpace c \<Longrightarrow> c \<in> set (trim s)"
  by (simp add: trim_def dropWhile_keeps)

lemma trim_blank: "trim s = [] \<longleftrightarrow> (\<forall>c \<in> set s. isWhiteSpace c)"
proof
  assume "trim s = []"
  show "\<forall>c \<in> set s. isWhiteSpace c"
  proof
    fix c assume "c \<in> set s"
    show "isWhiteSpace c"
    proof (rule ccontr)
      assume "\<not> isWhiteSpace c"
      with \<open>c \<in> set s\<close> have "c \<in> set (trim s)" by (rule trim_keeps)
      with \<open>trim s = []\<close> show False by simp
    qed
  qed
next
  assume "\<forall>c \<in> set s. isWhiteSpace c"
  then have h: "dropWhile isWhiteSpace s = []"
    by (simp only: dropWhile_eq_Nil_conv)
  show "trim s = []"
    unfolding trim_def h by simp
qed

section \<open>The tokenizer\<close>










lemma scanLine_nonempty: "scanLine l fs f q \<noteq> []"
  by (induction l fs f q rule: scanLine.induct) auto

lemma splitCSVLine_nonempty: "splitCSVLine l \<noteq> []"
  by (simp add: splitCSVLine_def scanLine_nonempty)



section \<open>Properties and paths of records\<close>

lemma getProp_setProp:
  "getProp (setProp kvs k v) k' = (if k' = k then Some v else getProp kvs k')"
  by (induction kvs) auto




lemma getProp_filter:
  "getProp (filter (\<lambda>(k, v). P k) kvs) key = (if P key then getProp kvs key else None)"
  by (induction kvs) auto

lemma splitOn_nonempty: "splitOn c s \<noteq> []"
  by (induction s) (auto split: list.splits)

lemma getPath_Nil_obj: "getPath [] p = None"
  by (cases "([] :: jobj, p)" rule: getPath.cases) auto

lemma getPath_setProp_other:
  "p \<noteq> [] \<Longrightarrow> hd p \<noteq> k \<Longrightarrow> getPath (setProp obj k v) p = getPath obj p"
  by (cases "(obj, p)" rule: getPath.cases) (auto simp: getProp_setProp)

lemma getPath_setPath_same: "p \<noteq> [] \<Longrightarrow> getPath (setPath obj p v) p = Some v"
  by (induction obj p v rule: setPath.induct) (auto simp: getProp_setProp)

lemma getPath_setPath_other:
  "\<not> prefix p q \<Longrightarrow> \<not> prefix q p \<Longrightarrow> getPath (setPath obj q w) p = getPath obj p"
proof (induction obj q w arbitrary: p rule: setPath.induct)
  case (1 obj w)
  then show ?case by simp
next
  case (2 obj key w)
  then have "p \<noteq> []" "hd p \<noteq> key"
    by (cases p; auto)+
  then show ?case
    by (simp add: getPath_setProp_other)
next
  case (3 obj key k2 ks w)
  from "3.prems" obtain p0 ps where p: "p = p0 # ps"
    by (cases p) auto
  show ?case
  proof (cases "p0 = key")
    case False
    with p show ?thesis
      by (simp add: getPath_setProp_other)
  next
    case True
    with p "3.prems" obtain p1 pr where ps: "ps = p1 # pr"
      by (cases ps) auto
    from p True "3.prems" have np: "\<not> prefix ps (k2 # ks)" "\<not> prefix (k2 # ks) ps"
      by auto
    let ?sub = "case getProp obj key of Some (JObj sub) \<Rightarrow> sub | _ \<Rightarrow> []"
    have "getPath (setPath obj (key # k2 # ks) w) p = getPath (setPath ?sub (k2 # ks) w) ps"
      using p True ps by (simp add: getProp_setProp)
    also have "\<dots> = getPath ?sub ps"
      by (rule "3.IH" [OF np])
    also have "\<dots> = getPath obj p"
      using p True ps by (auto simp: getPath_Nil_obj split: option.splits jval.splits)
    finally show ?thesis .
  qed
qed

lemma leavesTrimmed_obj:
  "leavesTrimmed (JObj kvs) \<longleftrightarrow> (\<forall>(k, v) \<in> set kvs. leavesTrimmed v)"
  by (induction kvs) (auto simp: list_all_iff)

declare leavesTrimmed.simps(2) [simp del]

lemma leavesTrimmed_empty [simp]: "leavesTrimmed (JObj [])"
  by (simp add: leavesTrimmed_obj)




section \<open>Building and parsing\<close>

lemma joinComma_head: "set s \<subseteq> set (joinComma (s # ss))"
  by (cases ss) auto

lemma object_nonEmpty: "valueNonEmpty (JObj ((k, v) # kvs))"
proof -
  let ?keep = "\<lambda>c. c \<noteq> dquote \<and> c \<noteq> CHR ''{'' \<and> c \<noteq> CHR ''}''"
  have "CHR '':'' \<in> set (stringify (JObj ((k, v) # kvs)))"
    using joinComma_head [of "quoteJSON k @ CHR '':'' # stringify v"] by auto
  then have "CHR '':'' \<in> set (filter ?keep (stringify (JObj ((k, v) # kvs))))"
    by (simp add: dquote_def)
  then have "CHR '':'' \<in> set (trim (filter ?keep (stringify (JObj ((k, v) # kvs)))))"
    by (rule trim_keeps) (simp add: isWhiteSpace_def)
  then have "trim (filter ?keep (stringify (JObj ((k, v) # kvs)))) \<noteq> []"
    by auto
  then show ?thesis
    by (simp add: valueNonEmpty_def)
qed

lemma assignHeaders_other:
  "\<forall>h \<in> set hs. \<not> prefix p (splitOn CHR ''.'' h) \<and> \<not> prefix (splitOn CHR ''.'' h) p \<Longrightarrow>
   getPath (assignHeaders row hs idx fs) p = getPath row p"
  by (induction hs arbitrary: row idx)
     (auto simp: setNestedProperty_def getPath_setPath_other)

lemma assignHeaders_readBack:
  "independentPaths (map (splitOn CHR ''.'') hs) \<Longrightarrow> i < length hs \<Longrightarrow>
   readBack (assignHeaders row hs idx fs) (hs ! i) = Some (JStr (fieldAt fs (idx + i)))"
proof (induction hs arbitrary: row idx i)
  case Nil
  then show ?case by simp
next
  case (Cons h hs)
  show ?case
  proof (cases i)
    case 0
    have "getPath (assignHeaders (setNestedProperty row h (JStr (fieldAt fs idx))) hs (Suc idx) fs)
            (splitOn CHR ''.'' h)
          = getPath (setNestedProperty row h (JStr (fieldAt fs idx))) (splitOn CHR ''.'' h)"
      using Cons.prems(1) by (intro assignHeaders_other) auto
    also have "\<dots> = Some (JStr (fieldAt fs idx))"
      by (simp add: setNestedProperty_def getPath_setPath_same splitOn_nonempty)
    finally show ?thesis
      using 0 by (simp add: readBack_def fieldAt_def)
  next
    case (Suc j)
    with Cons.prems have "independentPaths (map (splitOn CHR ''.'') hs)" "j < length hs"
      by simp_all
    from Cons.IH [OF this] Suc show ?thesis
      by simp
  qed
qed


















lemma buildRow_round_trip:
  assumes "independentPaths (map (splitOn CHR ''.'') hs)" and "length fs = length hs"
  shows "map (readBack (buildRow hs fs)) hs = map (\<lambda>f. Some (JStr f)) fs"
proof (rule nth_equalityI)
  show "length (map (readBack (buildRow hs fs)) hs) = length (map (\<lambda>f. Some (JStr f)) fs)"
    using assms(2) by simp
next
  fix i
  assume "i < length (map (readBack (buildRow hs fs)) hs)"
  then have i: "i < length hs" by simp
  have b: "buildRow hs fs = assignHeaders [] hs 0 fs"
    using assms(2) by (simp add: buildRow_def buildPadded_def)
  from assignHeaders_readBack [OF assms(1) i, of "[]" 0 fs] i assms(2)
  show "map (readBack (buildRow hs fs)) hs ! i = map (\<lambda>f. Some (JStr f)) fs ! i"
    by (simp add: b fieldAt_def)
qed

lemma set_replaceCRLF: "set (replaceCRLF s) \<subseteq> insert LF (set s)"
  by (induction s rule: replaceCRLF.induct) auto

lemma set_replaceCR: "set (replaceCR s) \<subseteq> insert LF (set s)"
  by (auto simp: replaceCR_def)

lemma set_splitOn: "l \<in> set (splitOn c s) \<Longrightarrow> set l \<subseteq> set s"
proof (induction s arbitrary: l)
  case Nil
  then show ?case by simp
next
  case (Cons x xs)
  show ?case
  proof (cases "x = c")
    case True
    with Cons show ?thesis by auto
  next
    case False
    obtain w ws where r: "splitOn c xs = w # ws"
      using splitOn_nonempty [of c xs] by (cases "splitOn c xs") auto
    with Cons.prems False have "l = x # w \<or> l \<in> set ws" by simp
    with Cons.IH [of w] Cons.IH [of l] r show ?thesis by auto
  qed
qed

lemma nonBlankLines_blank:
  assumes "trim data = []"
  shows "nonBlankLines data = []"
proof -
  have ws: "\<forall>c \<in> set data. isWhiteSpace c"
    using assms by (simp add: trim_blank)
  have lf: "isWhiteSpace LF"
    by (simp add: isWhiteSpace_def LF_def)
  have "\<forall>c \<in> set (replaceCR (replaceCRLF data)). isWhiteSpace c"
    using ws lf set_replaceCRLF [of data] set_replaceCR [of "replaceCRLF data"] by blast
  then have "\<forall>l \<in> set (splitOn LF (replaceCR (replaceCRLF data))). trim l = []"
    using set_splitOn [of _ LF "replaceCR (replaceCRLF data)"] by (auto simp: trim_blank)
  then show ?thesis
    by (simp add: nonBlankLines_def filter_empty_conv)
qed

lemma parseCSV_headers_records:
  "headers (parseCSV data) = [] \<Longrightarrow> records (parseCSV data) = []"
  by (auto simp: parseCSV_def parseRows_def splitCSVLine_nonempty split: list.splits if_splits)


lemma parseCSV_structure:
  "records (parseCSV data) =
     map (\<lambda>raw. buildRow (headers (parseCSV data)) (splitCSVLine raw))
       (filter (\<lambda>raw. anyNonEmpty (buildRow (headers (parseCSV data)) (splitCSVLine raw)))
          (dataLines data))"
proof (cases "data = [] \<or> trim data = []")
  case True
  then have "trim data = []" by auto
  then have "nonBlankLines data = []" by (rule nonBlankLines_blank)
  with True show ?thesis
    by (simp add: parseCSV_def dataLines_def)
next
  case False
  then show ?thesis
    by (cases "nonBlankLines data")
       (simp_all add: parseCSV_def parseRows_def dataLines_def filter_map comp_def)
qed


section \<open>The sample file, parsed\<close>

lemmas eval_text = nonBlankLines_def replaceCR_def splitCSVLine_def trim_def
  isWhiteSpace_def dquote_def LF_def CR_def

lemmas eval_row = parseCSV_def parseRows_def buildRow_def buildPadded_def addExtras_def
  padFields_def setNestedProperty_def collectExtras.simps showNat.simps digitChar_def
  anyNonEmpty_def valueNonEmpty_def quoteJSON_def escapeChar_def hexDigit_def

lemma sample_lines:
  "nonBlankLines sampleCSV =
     [''name.firstName,name.lastName,age,address.city,gender'', ''Rohit,Prasad,35,Pune,male'',
      ''Asha,Rao,abc,Goa,female'', '',Nair,41,Kochi,male'', ''Minus,Five,-5,Agra,female'']"
  by (simp add: sampleCSV_def eval_text)

lemma sample_header:
  "map trim (splitCSVLine ''name.firstName,name.lastName,age,address.city,gender'')
   = [''name.firstName'', ''name.lastName'', ''age'', ''address.city'', ''gender'']"
  by (simp add: eval_text)

lemma sample_fields:
  "map splitCSVLine [''Rohit,Prasad,35,Pune,male'', ''Asha,Rao,abc,Goa,female'',
      '',Nair,41,Kochi,male'', ''Minus,Five,-5,Agra,female'']
   = [[''Rohit'', ''Prasad'', ''35'', ''Pune'', ''male''], [''Asha'', ''Rao'', ''abc'', ''Goa'', ''female''],
      [[], ''Nair'', ''41'', ''Kochi'', ''male''], [''Minus'', ''Five'', ''-5'', ''Agra'', ''female'']]"
  by (simp add: eval_text)

lemma sample_build:
  "buildRow [''name.firstName'', ''name.lastName'', ''age'', ''address.city'', ''gender'']
     [a, b, c, d, e] = sampleRecord a b c d e"
  by (simp add: buildRow_def buildPadded_def setNestedProperty_def sampleRecord_def)

lemma sample_kept: "anyNonEmpty (sampleRecord a b c d e)"
  using object_nonEmpty by (simp add: anyNonEmpty_def sampleRecord_def)

lemma sample_nonblank: "sampleCSV \<noteq> [] \<and> trim sampleCSV \<noteq> []"
  by (simp add: sampleCSV_def trim_def isWhiteSpace_def)

lemma sample_parse:
  "parseCSV sampleCSV =
     \<lparr>headers = [''name.firstName'', ''name.lastName'', ''age'', ''address.city'', ''gender''],
      records = sampleRecords\<rparr>"
  using sample_fields
  by (simp add: parseCSV_def parseRows_def sample_nonblank sample_lines sample_header
      sample_build sample_kept sampleRecords_def)

lemma sample_plain:
  "plainHeaders [''name.firstName'', ''name.lastName'', ''age'', ''address.city'', ''gender'']"
  "list_all (\<lambda>h. hd (splitOn CHR ''.'' h) \<noteq> ''__extras'')
     [''name.firstName'', ''name.lastName'', ''age'', ''address.city'', ''gender'']"
  by (simp_all add: plainHeaders_def)

section \<open>Overflow, padding and the round trip\<close>




text \<open>
  C3, as the code has it. The records of a text are the records built from its data lines,
  in order, without those the emptiness filter drops. When the header's dot paths do not
  collide (none is a prefix of another) and have no segment \<open>__proto__\<close>, and a data line
  has as many fields as the header, reading its record back at each header key's dot path,
  in header order, gives exactly the trimmed fields of that line.
\<close>

theorem parse_round_trip:
  "records (parseCSV data) =
     map (\<lambda>raw. buildRow (headers (parseCSV data)) (splitCSVLine raw))
       (filter (\<lambda>raw. anyNonEmpty (buildRow (headers (parseCSV data)) (splitCSVLine raw)))
          (dataLines data)) \<and>
   (plainHeaders (headers (parseCSV data)) \<longrightarrow>
      (\<forall>raw \<in> set (dataLines data).
         length (splitCSVLine raw) = length (headers (parseCSV data)) \<longrightarrow>
         map (readBack (buildRow (headers (parseCSV data)) (splitCSVLine raw)))
             (headers (parseCSV data))
           = map (\<lambda>f. Some (JStr f)) (splitCSVLine raw)))"
  using parseCSV_structure [of data] buildRow_round_trip [of "headers (parseCSV data)"]
  by (simp add: plainHeaders_def)

theorem parse_round_trip_witness:
  "plainHeaders (headers (parseCSV sampleCSV)) \<and>
   ''Rohit,Prasad,35,Pune,male'' \<in> set (dataLines sampleCSV) \<and>
   length (splitCSVLine ''Rohit,Prasad,35,Pune,male'') = length (headers (parseCSV sampleCSV)) \<and>
   buildRow (headers (parseCSV sampleCSV)) (splitCSVLine ''Rohit,Prasad,35,Pune,male'')
     = sampleRecord ''Rohit'' ''Prasad'' ''35'' ''Pune'' ''male'' \<and>
   map (readBack (sampleRecord ''Rohit'' ''Prasad'' ''35'' ''Pune'' ''male''))
       [''name.firstName'', ''name.lastName'', ''age'', ''address.city'', ''gender'']
     = [Some (JStr ''Rohit''), Some (JStr ''Prasad''), Some (JStr ''35''), Some (JStr ''Pune''),
        Some (JStr ''male'')]"
proof -
  let ?hs = "[''name.firstName'', ''name.lastName'', ''age'', ''address.city'', ''gender'']"
  let ?raw = "''Rohit,Prasad,35,Pune,male''"
  have hs: "headers (parseCSV sampleCSV) = ?hs"
    by (simp add: sample_parse)
  have p: "plainHeaders (headers (parseCSV sampleCSV))"
    unfolding hs by (rule sample_plain(1))
  have m: "?raw \<in> set (dataLines sampleCSV)"
    by (simp add: dataLines_def sample_lines)
  have f: "splitCSVLine ?raw = [''Rohit'', ''Prasad'', ''35'', ''Pune'', ''male'']"
    using sample_fields by simp
  then have n: "length (splitCSVLine ?raw) = length (headers (parseCSV sampleCSV))"
    by (simp add: hs)
  have b: "buildRow (headers (parseCSV sampleCSV)) (splitCSVLine ?raw)
             = sampleRecord ''Rohit'' ''Prasad'' ''35'' ''Pune'' ''male''"
    unfolding hs f by (rule sample_build)
  from parse_round_trip [of sampleCSV, THEN conjunct2, rule_format, OF p m n]
  have "map (readBack (sampleRecord ''Rohit'' ''Prasad'' ''35'' ''Pune'' ''male'')) ?hs
          = map (\<lambda>f. Some (JStr f)) [''Rohit'', ''Prasad'', ''35'', ''Pune'', ''male'']"
    unfolding b unfolding hs f .
  then have "map (readBack (sampleRecord ''Rohit'' ''Prasad'' ''35'' ''Pune'' ''male'')) ?hs
     = [Some (JStr ''Rohit''), Some (JStr ''Prasad''), Some (JStr ''35''), Some (JStr ''Pune''),
        Some (JStr ''male'')]"
    by (simp only: list.map)
  with p m n b show ?thesis
    by (intro conjI)
qed

text \<open>
  C3 as stated fails for distinct keys that collide: under the header \<open>a,a.b\<close> the row
  \<open>1,2\<close> has two fields, and reading its record back at \<open>a\<close> gives the object that
  holds \<open>b\<close>, not the field \<open>1\<close>.
\<close>

theorem parse_round_trip_counterexample:
  "headers (parseCSV ''a,a.b\<newline>1,2'') = [''a'', ''a.b''] \<and>
   splitCSVLine ''1,2'' = [''1'', ''2''] \<and>
   records (parseCSV ''a,a.b\<newline>1,2'') = [[(''a'', JObj [(''b'', JStr ''2'')])]] \<and>
   readBack [(''a'', JObj [(''b'', JStr ''2'')])] ''a'' = Some (JObj [(''b'', JStr ''2'')]) \<and>
   readBack [(''a'', JObj [(''b'', JStr ''2'')])] ''a.b'' = Some (JStr ''2'')"
  by (simp add: eval_text eval_row readBack_def)

section \<open>Validation and routing of a record\<close>

lemma isRadixDigit_10: "isRadixDigit 10 c \<longleftrightarrow> isDecimalDigit c"
  by (auto simp: isRadixDigit_def digitValue_def digitOfCode_def isDecimalDigit_def
      split: option.splits if_splits)

lemma digitsValue_decimal:
  "\<forall>c \<in> set ds. isDecimalDigit c \<Longrightarrow>
   digitsValue 10 acc ds = foldl (\<lambda>acc c. acc * 10 + (of_char c - 48)) acc ds"
  by (induction ds arbitrary: acc)
     (auto simp: isDecimalDigit_def digitValue_def digitOfCode_def)

lemma takeWhile_run:
  "\<forall>c \<in> set ds. P c \<Longrightarrow> rest = [] \<or> \<not> P (hd rest) \<Longrightarrow> takeWhile P (ds @ rest) = ds"
  by (cases rest) (auto simp: takeWhile_append)

lemma parseDigits_decimal:
  assumes "ds \<noteq> []" "\<forall>c \<in> set ds. isDecimalDigit c" "rest = [] \<or> \<not> isDecimalDigit (hd rest)"
  shows "parseDigits 10 (ds @ rest) = Some (decimalValue ds)"
proof -
  have "takeWhile (isRadixDigit 10) (ds @ rest) = ds"
    using assms by (intro takeWhile_run) (simp_all add: isRadixDigit_10)
  with assms show ?thesis
    by (simp add: parseDigits_def digitsValue_decimal decimalValue_def)
qed

lemma parseDigits_None: "parseDigits R s = None \<longleftrightarrow> (s = [] \<or> \<not> isRadixDigit R (hd s))"
  by (cases s) (auto simp: parseDigits_def)

lemma parseMagnitude_None: "parseMagnitude body = None \<longleftrightarrow> \<not> startsNumber body"
proof (cases "hexPrefix body")
  case True
  then have "length body \<ge> 2" by (simp add: hexPrefix_def)
  then have "drop 2 body = [] \<longleftrightarrow> length body \<le> 2" by auto
  moreover have "length body > 2 \<Longrightarrow> hd (drop 2 body) = body ! 2"
    by (simp add: hd_drop_conv_nth)
  ultimately show ?thesis
    using True by (auto simp: parseMagnitude_def startsNumber_def parseDigits_None)
next
  case False
  then show ?thesis
    by (simp add: parseMagnitude_def startsNumber_def parseDigits_None isRadixDigit_10)
qed

lemma parseSigned_unsigned:
  "parseSigned S = None \<longleftrightarrow> parseMagnitude (unsignedPart S) = None"
  by (auto simp: parseSigned_def unsignedPart_def)

lemma parseInt_None: "parseInt s = None \<longleftrightarrow> \<not> ageAccepted s"
  by (simp add: parseInt_def ageAccepted_def parseSigned_unsigned parseMagnitude_None)

lemma parseInt_decimal:
  assumes "ds \<noteq> []" "\<forall>c \<in> set ds. isDecimalDigit c" "rest = [] \<or> \<not> isDecimalDigit (hd rest)"
    and "\<not> hexPrefix (ds @ rest)"
  shows "parseInt (ds @ rest) = Some (int (decimalValue ds))"
    and "parseInt (CHR ''-'' # ds @ rest) = Some (- int (decimalValue ds))"
proof -
  from assms(1,2) have h: "\<not> isWhiteSpace (hd ds)" "hd ds \<noteq> CHR ''-''" "hd ds \<noteq> CHR ''+''"
    by (cases ds; auto simp: isDecimalDigit_def isWhiteSpace_def)+
  from assms(1) h have "dropWhile isWhiteSpace (ds @ rest) = ds @ rest"
    by (cases ds) auto
  moreover from assms(1) h have "parseSigned (ds @ rest) = map_option int (parseMagnitude (ds @ rest))"
    by (cases ds) (auto simp: parseSigned_def)
  moreover have "parseMagnitude (ds @ rest) = Some (decimalValue ds)"
    using assms by (simp add: parseMagnitude_def parseDigits_decimal)
  ultimately show "parseInt (ds @ rest) = Some (int (decimalValue ds))"
    by (simp add: parseInt_def)
  have "dropWhile isWhiteSpace (CHR ''-'' # ds @ rest) = CHR ''-'' # ds @ rest"
    by (simp add: isWhiteSpace_def)
  then show "parseInt (CHR ''-'' # ds @ rest) = Some (- int (decimalValue ds))"
    using \<open>parseMagnitude (ds @ rest) = Some (decimalValue ds)\<close>
    by (simp add: parseInt_def parseSigned_def)
qed


lemma route_invalid:
  "truthy (nameField rec ''firstName'') \<Longrightarrow> truthy (nameField rec ''lastName'') \<Longrightarrow>
   toStr (ageField rec) = Some raw \<Longrightarrow> parseInt (trim raw) = None \<Longrightarrow>
   routeRecord rec = Skip (''Invalid age: '' @ [dquote] @ raw @ [dquote])"
  by (simp add: routeRecord_def routeFields_def)

lemma route_insert:
  "truthy (nameField rec ''firstName'') \<Longrightarrow> truthy (nameField rec ''lastName'') \<Longrightarrow>
   toStr (ageField rec) = Some raw \<Longrightarrow> parseInt (trim raw) = Some a \<Longrightarrow>
   toStr (nameField rec ''firstName'') = Some f \<Longrightarrow>
   toStr (nameField rec ''lastName'') = Some l \<Longrightarrow>
   routeRecord rec = Insert (buildDbRow rec f l a)"
  by (simp add: routeRecord_def routeFields_def)

lemma route_Insert_fields:
  assumes "routeRecord rec = Insert row"
  shows "\<exists>f l raw. toStr (nameField rec ''firstName'') = Some f \<and>
           toStr (nameField rec ''lastName'') = Some l \<and>
           toStr (ageField rec) = Some raw \<and>
           parseInt (trim raw) = Some (row_age row) \<and>
           row_name row = trim f @ '' '' @ trim l"
    and "truthy (nameField rec ''firstName'')" and "truthy (nameField rec ''lastName'')"
    and "row_address row = (case getProp rec ''address'' of Some (JObj addr) \<Rightarrow> addr | _ \<Rightarrow> [])"
    and "row_additional row =
           filter (\<lambda>(k, v). k \<noteq> ''name'' \<and> k \<noteq> ''age'' \<and> k \<noteq> ''address'') rec"
  using assms
  by (auto simp: routeRecord_def routeFields_def buildDbRow_def split: if_splits option.splits)

lemma route_Throws_cause:
  assumes "routeRecord rec = Throws err"
  shows "err = typeError \<and>
         (toStr (ageField rec) = None \<or> toStr (nameField rec ''firstName'') = None \<or>
          toStr (nameField rec ''lastName'') = None)"
  using assms
  by (auto simp: routeRecord_def routeFields_def split: if_splits option.splits)

lemma toStr_None:
  "toStr v = None \<longleftrightarrow> (\<exists>kvs. v = JObj kvs \<and> getProp kvs ''toString'' \<noteq> None)"
  by (cases v) auto


lemma buildDbRow_fields [simp]:
  "row_name (buildDbRow rec f l a) = trim f @ '' '' @ trim l"
  "row_age (buildDbRow rec f l a) = a"
  "row_address (buildDbRow rec f l a)
     = (case getProp rec ''address'' of Some (JObj addr) \<Rightarrow> addr | _ \<Rightarrow> [])"
  "row_additional (buildDbRow rec f l a)
     = filter (\<lambda>(k, v). k \<noteq> ''name'' \<and> k \<noteq> ''age'' \<and> k \<noteq> ''address'') rec"
  by (simp_all add: buildDbRow_def)

lemma countAge_low: "a \<le> 20 \<Longrightarrow> countAge g a = g\<lparr>lt20 := lt20 g + 1\<rparr>"
  by (simp add: countAge_def)

lemma uploadLoop_skip:
  "routeRecord rec = Skip reason \<Longrightarrow>
   uploadLoop query [rec] st ic sk li = (Inr (ic, sk @ [(li, reason)]), st)"
  by simp

lemma uploadLoop_insert:
  "routeRecord rec = Insert row \<Longrightarrow>
   uploadLoop query [rec] st ic sk li =
     (case query st row of
        (None, st') \<Rightarrow> (Inr (ic + 1, sk), st')
      | (Some msg, st') \<Rightarrow> (Inr (ic, sk @ [(li, ''DB insert error: '' @ msg)]), st'))"
  by (simp split: prod.splits option.splits)

lemmas eval_route = routeRecord_def routeFields_def buildDbRow_def nameField_def ageField_def
  parseInt_def parseSigned_def parseMagnitude_def hexPrefix_def parseDigits_def digitValue_def
  digitOfCode_def isRadixDigit_def trim_def isWhiteSpace_def dquote_def

lemmas eval_age = ageAccepted_def unsignedPart_def startsNumber_def hexPrefix_def
  isDecimalDigit_def isRadixDigit_def digitValue_def digitOfCode_def trim_def
  isWhiteSpace_def decimalValue_def

lemma sample_names:
  "truthy (nameField (sampleRecord (c # cs) (d # ds) a b e) ''firstName'')"
  "truthy (nameField (sampleRecord (c # cs) (d # ds) a b e) ''lastName'')"
  "ageField (sampleRecord f l a b e) = JStr a"
  "namesPresent (sampleRecord (c # cs) (d # ds) a b e)"
  by (simp_all add: sampleRecord_def nameField_def ageField_def namesPresent_def)

lemma sample_route_each:
  \<open>routeRecord (sampleRecord ''Rohit'' ''Prasad'' ''35'' ''Pune'' ''male'') = Insert (sampleRow ''Rohit Prasad'' 35 ''Pune'' ''male'')\<close>
  \<open>routeRecord (sampleRecord ''Asha'' ''Rao'' ''abc'' ''Goa'' ''female'') = Skip ''Invalid age: "abc"''\<close>
  \<open>routeRecord (sampleRecord [] ''Nair'' ''41'' ''Kochi'' ''male'') = Skip ''Missing name.firstName or name.lastName''\<close>
  \<open>routeRecord (sampleRecord ''Minus'' ''Five'' ''-5'' ''Agra'' ''female'') = Insert (sampleRow ''Minus Five'' (- 5) ''Agra'' ''female'')\<close>
  by (simp_all add: sampleRecord_def sampleRow_def eval_route)

text \<open>
  C2, as the code has it. For a record that passes validation, \<open>additional\<close> is the
  record without its top-level \<open>name\<close>, \<open>age\<close> and \<open>address\<close> keys, every other key
  keeping its value; the \<open>address\<close> subtree goes to the address column only (an empty
  object when the record has no \<open>address\<close> object).
\<close>

theorem additional_without_address:
  assumes "routeRecord rec = Insert row"
  shows "row_additional row =
           filter (\<lambda>(k, v). k \<noteq> ''name'' \<and> k \<noteq> ''age'' \<and> k \<noteq> ''address'') rec \<and>
         getProp (row_additional row) ''name'' = None \<and>
         getProp (row_additional row) ''age'' = None \<and>
         getProp (row_additional row) ''address'' = None \<and>
         (\<forall>key. key \<noteq> ''name'' \<and> key \<noteq> ''age'' \<and> key \<noteq> ''address'' \<longrightarrow>
            getProp (row_additional row) key = getProp rec key) \<and>
         row_address row = (case getProp rec ''address'' of Some (JObj addr) \<Rightarrow> addr | _ \<Rightarrow> [])"
  using route_Insert_fields(4,5) [OF assms]
    getProp_filter [of "\<lambda>k. k \<noteq> ''name'' \<and> k \<noteq> ''age'' \<and> k \<noteq> ''address''" rec]
  by simp

theorem additional_without_address_witness:
  "routeRecord (sampleRecord ''Rohit'' ''Prasad'' ''35'' ''Pune'' ''male'')
     = Insert (sampleRow ''Rohit Prasad'' 35 ''Pune'' ''male'') \<and>
   row_additional (sampleRow ''Rohit Prasad'' 35 ''Pune'' ''male'') = [(''gender'', JStr ''male'')] \<and>
   getProp (row_additional (sampleRow ''Rohit Prasad'' 35 ''Pune'' ''male'')) ''address'' = None \<and>
   getProp (row_additional (sampleRow ''Rohit Prasad'' 35 ''Pune'' ''male'')) ''gender''
     = getProp (sampleRecord ''Rohit'' ''Prasad'' ''35'' ''Pune'' ''male'') ''gender'' \<and>
   row_address (sampleRow ''Rohit Prasad'' 35 ''Pune'' ''male'') = [(''city'', JStr ''Pune'')]"
  using additional_without_address [OF sample_route_each(1)] sample_route_each(1)
  by (simp add: sampleRecord_def sampleRow_def)

text \<open>
  C2 as stated fails: the record of the line \<open>Rohit,Prasad,35,Pune\<close> under the header
  \<open>name.firstName,name.lastName,age,address.city\<close> has an \<open>address\<close> subtree, and the
  \<open>additional\<close> value written for it is empty.
\<close>

theorem additional_keeps_address_counterexample:
  "buildRow [''name.firstName'', ''name.lastName'', ''age'', ''address.city'']
     [''Rohit'', ''Prasad'', ''35'', ''Pune'']
     = [(''name'', JObj [(''firstName'', JStr ''Rohit''), (''lastName'', JStr ''Prasad'')]),
        (''age'', JStr ''35''), (''address'', JObj [(''city'', JStr ''Pune'')])] \<and>
   routeRecord [(''name'', JObj [(''firstName'', JStr ''Rohit''), (''lastName'', JStr ''Prasad'')]),
                (''age'', JStr ''35''), (''address'', JObj [(''city'', JStr ''Pune'')])]
     = Insert \<lparr>row_name = ''Rohit Prasad'', row_age = 35,
               row_address = [(''city'', JStr ''Pune'')], row_additional = []\<rparr>"
  by (simp add: eval_route buildRow_def buildPadded_def setNestedProperty_def)

text \<open>
  C5, as the code has it. For a record whose two name fields are present and whose age
  field converts to a string, the age (trimmed) passes exactly when, after an optional
  sign, it starts with a decimal digit, or with \<open>0x\<close>/\<open>0X\<close> followed by a hexadecimal
  digit. A run of decimal digits of value below \<open>2 ^ 53\<close>, followed by other characters,
  is read in base ten, the rest being ignored, unless it begins \<open>0x\<close>/\<open>0X\<close>. A field that
  does not pass skips the row with reason \<open>Invalid age: "<raw value>"\<close> and leaves the
  inserted count as it was.
\<close>

theorem age_validation:
  assumes "namesPresent rec" and "toStr (ageField rec) = Some raw"
  shows "(\<not> ageAccepted (trim raw) \<longrightarrow>
            routeRecord rec = Skip (''Invalid age: '' @ [dquote] @ raw @ [dquote]) \<and>
            uploadLoop query [rec] st ic sk li
              = (Inr (ic, sk @ [(li, ''Invalid age: '' @ [dquote] @ raw @ [dquote])]), st)) \<and>
         (ageAccepted (trim raw) \<longrightarrow> (\<exists>row. routeRecord rec = Insert row)) \<and>
         (\<forall>ds rest. trim raw = ds @ rest \<and> ds \<noteq> [] \<and>
              (\<forall>c \<in> set ds. isDecimalDigit c) \<and> (rest = [] \<or> \<not> isDecimalDigit (hd rest)) \<and>
              \<not> hexPrefix (ds @ rest) \<and> decimalValue ds < 2 ^ 53 \<longrightarrow>
            (\<exists>row. routeRecord rec = Insert row \<and> row_age row = int (decimalValue ds)))"
proof -
  from assms(1) obtain f l
    where n: "truthy (nameField rec ''firstName'')" "truthy (nameField rec ''lastName'')"
      and s: "toStr (nameField rec ''firstName'') = Some f"
        "toStr (nameField rec ''lastName'') = Some l"
    by (auto simp: namesPresent_def)
  show ?thesis
  proof (intro conjI impI allI)
    assume "\<not> ageAccepted (trim raw)"
    then have "parseInt (trim raw) = None"
      by (simp add: parseInt_None)
    from route_invalid [OF n assms(2) this]
    show r: "routeRecord rec = Skip (''Invalid age: '' @ [dquote] @ raw @ [dquote])" .
    show "uploadLoop query [rec] st ic sk li
            = (Inr (ic, sk @ [(li, ''Invalid age: '' @ [dquote] @ raw @ [dquote])]), st)"
      by (rule uploadLoop_skip [OF r])
  next
    assume "ageAccepted (trim raw)"
    then obtain a where a: "parseInt (trim raw) = Some a"
      using parseInt_None [of "trim raw"] by (cases "parseInt (trim raw)") auto
    from route_insert [OF n assms(2) a s]
    show "\<exists>row. routeRecord rec = Insert row"
      by blast
  next
    fix ds rest
    assume h: "trim raw = ds @ rest \<and> ds \<noteq> [] \<and>
                (\<forall>c \<in> set ds. isDecimalDigit c) \<and> (rest = [] \<or> \<not> isDecimalDigit (hd rest)) \<and>
                \<not> hexPrefix (ds @ rest) \<and> decimalValue ds < 2 ^ 53"
    then have "parseInt (ds @ rest) = Some (int (decimalValue ds))"
      by (intro parseInt_decimal(1)) simp_all
    with h have a: "parseInt (trim raw) = Some (int (decimalValue ds))"
      by simp
    from route_insert [OF n assms(2) a s]
    have "routeRecord rec = Insert (buildDbRow rec f l (int (decimalValue ds)))" .
    moreover have "row_age (buildDbRow rec f l (int (decimalValue ds))) = int (decimalValue ds)"
      by simp
    ultimately show "\<exists>row. routeRecord rec = Insert row \<and> row_age row = int (decimalValue ds)"
      by blast
  qed
qed

theorem age_validation_witness:
  \<open>namesPresent (sampleRecord ''Asha'' ''Rao'' ''abc'' ''Goa'' ''female'') \<and>
   toStr (ageField (sampleRecord ''Asha'' ''Rao'' ''abc'' ''Goa'' ''female'')) = Some ''abc'' \<and>
   \<not> ageAccepted (trim ''abc'') \<and>
   routeRecord (sampleRecord ''Asha'' ''Rao'' ''abc'' ''Goa'' ''female'') = Skip ''Invalid age: "abc"'' \<and>
   uploadLoop acceptingPool [sampleRecord ''Asha'' ''Rao'' ''abc'' ''Goa'' ''female''] () 1 [] 2
     = (Inr (1, [(2, ''Invalid age: "abc"'')]), ())\<close>
proof -
  let ?r = "sampleRecord ''Asha'' ''Rao'' ''abc'' ''Goa'' ''female''"
  have n: "namesPresent ?r"
    by (rule sample_names)
  have s: "toStr (ageField ?r) = Some ''abc''"
    by (simp add: sample_names)
  have a: "\<not> ageAccepted (trim ''abc'')"
    by (simp add: eval_age)
  have raw: \<open>''Invalid age: '' @ [dquote] @ ''abc'' @ [dquote] = ''Invalid age: "abc"''\<close>
    by (simp add: dquote_def)
  from age_validation [OF n s, THEN conjunct1, rule_format, OF a,
      where query = acceptingPool and st = "()" and ic = 1 and sk = "[]" and li = 2]
  have "routeRecord ?r = Skip (''Invalid age: '' @ [dquote] @ ''abc'' @ [dquote]) \<and>
        uploadLoop acceptingPool [?r] () 1 [] 2
          = (Inr (1, [] @ [(2, ''Invalid age: '' @ [dquote] @ ''abc'' @ [dquote])]), ())" .
  then show ?thesis
    unfolding raw using n s a by simp
qed

text \<open>
  C5 as stated fails on the prefix \<open>0x\<close>: the age \<open>0x\<close> starts with the digit \<open>0\<close>
  followed by a non-numeric character and is rejected, and \<open>0x1A\<close> is read in base 16.
\<close>

theorem age_hex_prefix_counterexample:
  \<open>routeRecord [(''name'', JObj [(''firstName'', JStr ''Rohit''), (''lastName'', JStr ''Prasad'')]),
                (''age'', JStr ''0x'')]
     = Skip ''Invalid age: "0x"'' \<and>
   routeRecord [(''name'', JObj [(''firstName'', JStr ''Rohit''), (''lastName'', JStr ''Prasad'')]),
                (''age'', JStr ''0x1A'')]
     = Insert \<lparr>row_name = ''Rohit Prasad'', row_age = 26, row_address = [], row_additional = []\<rparr>\<close>
  by (simp add: eval_route)

text \<open>
  C10, as the code has it. For a record whose two name fields are present and whose age
  field converts to a string that, trimmed, is a minus sign followed by decimal digits of
  value below \<open>2 ^ 53\<close> (and then no further digit), not beginning \<open>-0x\<close> or \<open>-0X\<close>,
  validation succeeds with the age minus the value of the digits, which is negative
  unless the digits are all zero; the row goes to the store, whose answer decides between
  the inserted count and a \<open>DB insert error\<close> entry; and the reporter counts every age of
  at most 20, so every such age, in the bucket \<open><20\<close>.
\<close>

theorem negative_age_accepted:
  assumes "namesPresent rec" and "toStr (ageField rec) = Some raw"
    and "trim raw = CHR ''-'' # ds @ rest"
    and "ds \<noteq> []" and "\<forall>c \<in> set ds. isDecimalDigit c"
    and "rest = [] \<or> \<not> isDecimalDigit (hd rest)" and "\<not> hexPrefix (ds @ rest)"
    and "decimalValue ds < 2 ^ 53"
  shows "\<exists>row. routeRecord rec = Insert row \<and>
           row_age row = - int (decimalValue ds) \<and> row_age row \<le> 0 \<and>
           (decimalValue ds \<noteq> 0 \<longrightarrow> row_age row < 0) \<and>
           uploadLoop query [rec] st ic sk li =
             (case query st row of
                (None, st') \<Rightarrow> (Inr (ic + 1, sk), st')
              | (Some msg, st') \<Rightarrow> (Inr (ic, sk @ [(li, ''DB insert error: '' @ msg)]), st')) \<and>
           countAge g (row_age row) = g\<lparr>lt20 := lt20 g + 1\<rparr>"
proof -
  from assms(1) obtain f l
    where n: "truthy (nameField rec ''firstName'')" "truthy (nameField rec ''lastName'')"
      and s: "toStr (nameField rec ''firstName'') = Some f"
        "toStr (nameField rec ''lastName'') = Some l"
    by (auto simp: namesPresent_def)
  have "parseInt (CHR ''-'' # ds @ rest) = Some (- int (decimalValue ds))"
    using assms(4-7) by (rule parseInt_decimal(2))
  with assms(3) have a: "parseInt (trim raw) = Some (- int (decimalValue ds))"
    by simp
  define row where "row = buildDbRow rec f l (- int (decimalValue ds))"
  have r: "routeRecord rec = Insert row"
    unfolding row_def by (rule route_insert [OF n assms(2) a s])
  have age: "row_age row = - int (decimalValue ds)"
    by (simp add: row_def)
  then have low: "row_age row \<le> 20"
    by simp
  from r age uploadLoop_insert [OF r] countAge_low [OF low] show ?thesis
    by auto
qed

theorem negative_age_accepted_witness:
  "namesPresent (sampleRecord ''Minus'' ''Five'' ''-5'' ''Agra'' ''female'') \<and>
   toStr (ageField (sampleRecord ''Minus'' ''Five'' ''-5'' ''Agra'' ''female'')) = Some ''-5'' \<and>
   trim ''-5'' = CHR ''-'' # ''5'' @ [] \<and>
   isDecimalDigit CHR ''5'' \<and> \<not> hexPrefix ''5'' \<and> decimalValue ''5'' = 5 \<and>
   routeRecord (sampleRecord ''Minus'' ''Five'' ''-5'' ''Agra'' ''female'')
     = Insert (sampleRow ''Minus Five'' (- 5) ''Agra'' ''female'') \<and>
   row_age (sampleRow ''Minus Five'' (- 5) ''Agra'' ''female'') < 0 \<and>
   countAge \<lparr>lt20 = 0, g20_40 = 0, g40_60 = 0, gt60 = 0\<rparr> (- 5)
     = \<lparr>lt20 = 1, g20_40 = 0, g40_60 = 0, gt60 = 0\<rparr>"
proof -
  let ?r = "sampleRecord ''Minus'' ''Five'' ''-5'' ''Agra'' ''female''"
  have n: "namesPresent ?r"
    by (rule sample_names)
  have s: "toStr (ageField ?r) = Some ''-5''"
    by (simp add: sample_names)
  have t: "trim ''-5'' = CHR ''-'' # ''5'' @ []"
    by (simp add: trim_def isWhiteSpace_def)
  have d: "''5'' \<noteq> []" "\<forall>c \<in> set ''5''. isDecimalDigit c" "[] = [] \<or> \<not> isDecimalDigit (hd [])"
    "\<not> hexPrefix (''5'' @ [])" "decimalValue ''5'' < 2 ^ 53" "decimalValue ''5'' = 5"
    by (simp_all add: eval_age)
  from negative_age_accepted [OF n s t d(1-5),
      where g = "\<lparr>lt20 = 0, g20_40 = 0, g40_60 = 0, gt60 = 0\<rparr>"
        and query = acceptingPool and st = "()" and ic = 0 and sk = "[]" and li = 1]
  obtain row where row: "routeRecord ?r = Insert row" "row_age row = - int (decimalValue ''5'')"
      "countAge \<lparr>lt20 = 0, g20_40 = 0, g40_60 = 0, gt60 = 0\<rparr> (row_age row)
         = \<lparr>lt20 = 0, g20_40 = 0, g40_60 = 0, gt60 = 0\<rparr>\<lparr>lt20 := lt20 \<lparr>lt20 = 0, g20_40 = 0, g40_60 = 0, gt60 = 0\<rparr> + 1\<rparr>"
    by blast
  from row(1) have "row = sampleRow ''Minus Five'' (- 5) ''Agra'' ''female''"
    by (simp add: sample_route_each)
  with row d(6) n s t d(2,4) show ?thesis
    by (simp add: sampleRow_def)
qed

text \<open>
  C10 as stated fails at two ages that start with a minus sign and a decimal digit:
  \<open>-0x\<close> is rejected, and \<open>-0\<close> is accepted with the age zero, which is not negative.
\<close>

theorem negative_age_counterexample:
  \<open>routeRecord [(''name'', JObj [(''firstName'', JStr ''Rohit''), (''lastName'', JStr ''Prasad'')]),
                (''age'', JStr ''-0x'')]
     = Skip ''Invalid age: "-0x"'' \<and>
   routeRecord [(''name'', JObj [(''firstName'', JStr ''Rohit''), (''lastName'', JStr ''Prasad'')]),
                (''age'', JStr ''-0'')]
     = Insert \<lparr>row_name = ''Rohit Prasad'', row_age = 0, row_address = [], row_additional = []\<rparr>\<close>
  by (simp add: eval_route)






section \<open>The ingestion loop\<close>

lemma uploadLoop_count:
  "uploadLoop query recs st ic sk li = (Inr (ic', sk'), st') \<Longrightarrow>
   ic' + length sk' = ic + length sk + length recs"
proof (induction recs arbitrary: st ic sk li)
  case Nil
  then show ?case by simp
next
  case (Cons r recs)
  show ?case
  proof (cases "routeRecord r")
    case (Skip reason)
    with Cons.prems
    have "uploadLoop query recs st ic (sk @ [(li, reason)]) (li + 1) = (Inr (ic', sk'), st')"
      by simp
    from Cons.IH [OF this] show ?thesis by simp
  next
    case (Throws err)
    with Cons.prems show ?thesis by simp
  next
    case (Insert row)
    obtain res st1 where q: "query st row = (res, st1)" by (cases "query st row")
    show ?thesis
    proof (cases res)
      case None
      with Cons.prems Insert q
      have "uploadLoop query recs st1 (ic + 1) sk (li + 1) = (Inr (ic', sk'), st')"
        by simp
      from Cons.IH [OF this] show ?thesis by simp
    next
      case (Some msg)
      with Cons.prems Insert q
      have "uploadLoop query recs st1 ic (sk @ [(li, ''DB insert error: '' @ msg)]) (li + 1)
              = (Inr (ic', sk'), st')"
        by simp
      from Cons.IH [OF this] show ?thesis by simp
    qed
  qed
qed

lemma uploadLoop_one:
  "uploadLoop query [r] st ic sk li = (Inr (ic', sk'), st') \<Longrightarrow>
   (ic' = ic + 1 \<and> sk' = sk) \<or> (ic' = ic \<and> length sk' = length sk + 1)"
  by (auto split: routed.splits option.splits prod.splits)

lemma uploadLoop_throws_iff:
  "(\<exists>e. fst (uploadLoop query recs st ic sk li) = Inl e) \<longleftrightarrow> list_ex routeThrows recs"
  by (induction recs arbitrary: st ic sk li)
     (auto simp: routeThrows_def split: routed.splits option.splits prod.splits)

lemma uploadLoop_outcomes:
  "\<not> list_ex routeThrows recs \<Longrightarrow>
   \<exists>st'. uploadLoop query recs st ic sk li
     = (Inr (ic + length (filter (\<lambda>out. out = None) (rowOutcomes query recs st)),
             sk @ skipEntries li (rowOutcomes query recs st)), st')"
proof (induction recs arbitrary: st ic sk li)
  case Nil
  then show ?case by simp
next
  case (Cons r recs)
  then have nt: "\<not> list_ex routeThrows recs" and nr: "\<not> routeThrows r"
    by simp_all
  show ?case
  proof (cases "routeRecord r")
    case (Skip reason)
    from Cons.IH [OF nt, of st ic "sk @ [(li, reason)]" "li + 1"] Skip show ?thesis
      by simp
  next
    case (Throws err)
    with nr show ?thesis by (simp add: routeThrows_def)
  next
    case (Insert row)
    obtain res st1 where q: "query st row = (res, st1)" by (cases "query st row")
    show ?thesis
    proof (cases res)
      case None
      from Cons.IH [OF nt, of st1 "ic + 1" sk "li + 1"] Insert q None show ?thesis
        by simp
    next
      case (Some msg)
      from Cons.IH [OF nt, of st1 ic "sk @ [(li, ''DB insert error: '' @ msg)]" "li + 1"]
        Insert q Some show ?thesis
        by simp
    qed
  qed
qed

lemma routeThrows_cause:
  assumes "routeThrows rec"
  shows "routeRecord rec = Throws typeError \<and>
         (ownsToString (ageField rec) \<or> ownsToString (nameField rec ''firstName'') \<or>
          ownsToString (nameField rec ''lastName''))"
proof -
  from assms obtain err where t: "routeRecord rec = Throws err"
    by (auto simp: routeThrows_def split: routed.splits)
  have o: "toStr v = None \<Longrightarrow> ownsToString v" for v
    by (cases v) (auto simp: ownsToString_def split: if_splits)
  from route_Throws_cause [OF t] t o show ?thesis
    by blast
qed

lemma uploadToDB_count:
  assumes "uploadToDB cfg fs query st = (Inr s, st')"
  shows "insertedCount s + length (skipped s) = totalRows s"
proof (cases cfg)
  case None
  with assms show ?thesis by (simp add: uploadToDB_def)
next
  case (Some filePath)
  show ?thesis
  proof (cases "filePath = []")
    case True
    with assms Some show ?thesis by (simp add: uploadToDB_def)
  next
    case ne: False
    show ?thesis
    proof (cases "fs filePath")
      case NoFile
      with assms Some ne show ?thesis by (auto simp: uploadToDB_def)
    next
      case (Unreadable msg)
      with assms Some ne show ?thesis by (simp add: uploadToDB_def)
    next
      case (FileText csvData)
      show ?thesis
      proof (cases "headers (parseCSV csvData) = [] \<or> records (parseCSV csvData) = []")
        case True
        then have "records (parseCSV csvData) = []"
          using parseCSV_headers_records by blast
        with assms Some ne FileText show ?thesis
          by (auto simp: uploadToDB_def uploadParsed_def)
      next
        case False
        obtain res st1 where l: "uploadLoop query (records (parseCSV csvData)) st 0 [] 1 = (res, st1)"
          by (cases "uploadLoop query (records (parseCSV csvData)) st 0 [] 1") auto
        show ?thesis
        proof (cases res)
          case (Inl err)
          with assms Some ne FileText False l show ?thesis
            by (simp add: uploadToDB_def uploadParsed_def)
        next
          case (Inr p)
          obtain ic sk where p: "p = (ic, sk)" by (cases p)
          from assms Some ne FileText False l Inr p
          have "s = \<lparr>insertedCount = ic, skipped = sk,
                     totalRows = length (records (parseCSV csvData))\<rparr>"
            by (auto simp: uploadToDB_def uploadParsed_def)
          with uploadLoop_count [OF l [unfolded Inr p]] show ?thesis by simp
        qed
      qed
    qed
  qed
qed

lemma uploadToDB_totalRows:
  assumes "uploadToDB (Some path) fs query st = (Inr s, st')" "fs path = FileText data"
  shows "totalRows s = length (records (parseCSV data))"
  using assms
  by (auto simp: uploadToDB_def uploadParsed_def split: if_splits prod.splits sum.splits)

lemma uploadParsed_throws_iff:
  "(\<exists>e. fst (uploadParsed (parseCSV data) query st) = Inl e)
     \<longleftrightarrow> list_ex routeThrows (records (parseCSV data))"
proof (cases "headers (parseCSV data) = [] \<or> records (parseCSV data) = []")
  case True
  then have "records (parseCSV data) = []"
    using parseCSV_headers_records by blast
  then show ?thesis
    by (simp add: uploadParsed_def)
next
  case False
  have "(\<exists>e. fst (uploadParsed (parseCSV data) query st) = Inl e)
        \<longleftrightarrow> (\<exists>e. fst (uploadLoop query (records (parseCSV data)) st 0 [] 1) = Inl e)"
    using False by (auto simp: uploadParsed_def split: prod.splits sum.splits)
  then show ?thesis
    by (simp only: uploadLoop_throws_iff)
qed

lemma uploadToDB_throws_iff:
  "(\<exists>e. fst (uploadToDB cfg fs query st) = Inl e) \<longleftrightarrow>
     (cfg = None \<or> cfg = Some [] \<or> (\<exists>path msg. cfg = Some path \<and> fs path = Unreadable msg) \<or>
      (\<exists>path data. cfg = Some path \<and> path \<noteq> [] \<and> fs path = FileText data \<and>
         list_ex routeThrows (records (parseCSV data))))"
proof (cases cfg)
  case None
  then show ?thesis by (simp add: uploadToDB_def)
next
  case (Some filePath)
  show ?thesis
  proof (cases "filePath = []")
    case True
    with Some show ?thesis by (simp add: uploadToDB_def)
  next
    case ne: False
    show ?thesis
    proof (cases "fs filePath")
      case NoFile
      with Some ne show ?thesis by (simp add: uploadToDB_def)
    next
      case (Unreadable msg)
      with Some ne show ?thesis by (simp add: uploadToDB_def)
    next
      case (FileText csvData)
      with Some ne have "uploadToDB cfg fs query st = uploadParsed (parseCSV csvData) query st"
        by (simp add: uploadToDB_def)
      with uploadParsed_throws_iff [of csvData query st] Some ne FileText show ?thesis
        by simp
    qed
  qed
qed

lemma uploadToDB_missing_file:
  "path \<noteq> [] \<Longrightarrow> fs path = NoFile \<Longrightarrow>
   uploadToDB (Some path) fs query st = (Inr \<lparr>insertedCount = 0, skipped = [], totalRows = 0\<rparr>, st)"
  by (simp add: uploadToDB_def)

lemma uploadToDB_outcomes:
  assumes "path \<noteq> []" "fs path = FileText data"
    and "\<not> list_ex routeThrows (records (parseCSV data))"
  shows "\<exists>s st'. uploadToDB (Some path) fs query st = (Inr s, st') \<and>
           insertedCount s = length (filter (\<lambda>out. out = None)
                                 (rowOutcomes query (records (parseCSV data)) st)) \<and>
           skipped s = skipEntries 1 (rowOutcomes query (records (parseCSV data)) st)"
proof (cases "headers (parseCSV data) = [] \<or> records (parseCSV data) = []")
  case True
  then have "records (parseCSV data) = []"
    using parseCSV_headers_records by blast
  with assms show ?thesis
    by (simp add: uploadToDB_def uploadParsed_def)
next
  case False
  from uploadLoop_outcomes [OF assms(3), of query st 0 "[]" 1]
  obtain st1 where "uploadLoop query (records (parseCSV data)) st 0 [] 1
     = (Inr (length (filter (\<lambda>out. out = None) (rowOutcomes query (records (parseCSV data)) st)),
             skipEntries 1 (rowOutcomes query (records (parseCSV data)) st)), st1)"
    by auto
  with assms False show ?thesis
    by (simp add: uploadToDB_def uploadParsed_def)
qed

lemma rowOutcomes_failing:
  "\<not> list_ex routeThrows recs \<Longrightarrow>
   rowOutcomes (failingPool msg) recs u =
     map (\<lambda>r. case routeRecord r of Skip reason \<Rightarrow> Some reason
                | _ \<Rightarrow> Some (''DB insert error: '' @ msg)) recs"
  by (induction recs) (auto simp: failingPool_def routeThrows_def split: routed.splits)

lemma sample_no_throw: "\<not> list_ex routeThrows sampleRecords"
  by (simp add: sampleRecords_def routeThrows_def sample_route_each)

lemma sample_loop_accepting:
  \<open>uploadLoop acceptingPool sampleRecords () 0 [] (Suc 0) =
     (Inr (2, [(2, ''Invalid age: "abc"''), (3, ''Missing name.firstName or name.lastName'')]), ())\<close>
  by (simp add: sampleRecords_def acceptingPool_def sample_route_each)

lemma sample_run_accepting:
  \<open>uploadToDB (Some ''users.csv'') (singleFile ''users.csv'' sampleCSV) acceptingPool () =
     (Inr \<lparr>insertedCount = 2,
            skipped = [(2, ''Invalid age: "abc"''),
                       (3, ''Missing name.firstName or name.lastName'')],
            totalRows = 4\<rparr>, ())\<close>
proof -
  have "uploadToDB (Some ''users.csv'') (singleFile ''users.csv'' sampleCSV) acceptingPool ()
        = uploadParsed (parseCSV sampleCSV) acceptingPool ()"
    by (simp add: uploadToDB_def singleFile_def)
  moreover have "length sampleRecords = 4"
    by (simp add: sampleRecords_def)
  ultimately show ?thesis
    by (simp add: uploadParsed_def sample_parse sample_loop_accepting del: uploadLoop.simps)
qed

text \<open>
  C1. Every run that returns a summary accounts for each parsed record once:
  \<open>insertedCount + length skipped = totalRows\<close>, where \<open>totalRows\<close> is the number of
  parsed records when the file was read; one record that the loop gets past moves exactly
  one of the two counts by one.
\<close>

theorem ingestion_accounting:
  assumes "uploadToDB cfg fs query st = (Inr s, st')"
  shows "insertedCount s + length (skipped s) = totalRows s \<and>
         (\<forall>path data. cfg = Some path \<and> fs path = FileText data \<longrightarrow>
            totalRows s = length (records (parseCSV data))) \<and>
         (\<forall>r st0 ic sk li ic' sk' st1.
            uploadLoop query [r] st0 ic sk li = (Inr (ic', sk'), st1) \<longrightarrow>
            (ic' = ic + 1 \<and> sk' = sk) \<or> (ic' = ic \<and> length sk' = length sk + 1))"
proof (intro conjI allI impI)
  show "insertedCount s + length (skipped s) = totalRows s"
    by (rule uploadToDB_count [OF assms])
next
  fix path data
  assume h: "cfg = Some path \<and> fs path = FileText data"
  with assms have "uploadToDB (Some path) fs query st = (Inr s, st')"
    by simp
  from uploadToDB_totalRows [OF this] h show "totalRows s = length (records (parseCSV data))"
    by simp
next
  fix r st0 ic sk li ic' sk' st1
  assume "uploadLoop query [r] st0 ic sk li = (Inr (ic', sk'), st1)"
  then show "(ic' = ic + 1 \<and> sk' = sk) \<or> (ic' = ic \<and> length sk' = length sk + 1)"
    by (rule uploadLoop_one)
qed

theorem ingestion_accounting_witness:
  \<open>uploadToDB (Some ''users.csv'') (singleFile ''users.csv'' sampleCSV) acceptingPool () =
     (Inr \<lparr>insertedCount = 2,
            skipped = [(2, ''Invalid age: "abc"''),
                       (3, ''Missing name.firstName or name.lastName'')],
            totalRows = 4\<rparr>, ()) \<and>
   (2 :: nat) + length [(2 :: nat, ''Invalid age: "abc"''),
                        (3, ''Missing name.firstName or name.lastName'')] = 4 \<and>
   length (records (parseCSV sampleCSV)) = 4\<close>
proof -
  note run = sample_run_accepting
  note acc = ingestion_accounting [OF run]
  have src: "singleFile ''users.csv'' sampleCSV ''users.csv'' = FileText sampleCSV"
    by (simp add: singleFile_def)
  have "totalRows \<lparr>insertedCount = 2,
            skipped = [(2, ''Invalid age: \"abc\"''),
                       (3, ''Missing name.firstName or name.lastName'')],
            totalRows = 4\<rparr> = length (records (parseCSV sampleCSV))"
    using acc [THEN conjunct2, THEN conjunct1, rule_format, of "''users.csv''" sampleCSV] src
    by simp
  then have "length (records (parseCSV sampleCSV)) = 4"
    by simp
  with run show ?thesis
    by simp
qed

lemma object_age_rejected: "\<not> ageAccepted (trim ''[object Object]'')"
  by (simp add: eval_age)

lemma routeThrows_conversionFails: "routeThrows rec = conversionFails rec"
proof (cases "truthy (nameField rec ''firstName'') \<and> truthy (nameField rec ''lastName'')")
  case False
  then show ?thesis
    by (auto simp: routeThrows_def routeRecord_def routeFields_def conversionFails_def)
next
  case True
  have o: "toStr v = None \<longleftrightarrow> ownsToString v" for v
    by (cases v) (auto simp: ownsToString_def)
  show ?thesis
  proof (cases "ageField rec")
    case (JStr raw)
    show ?thesis
    proof (cases "ageAccepted (trim raw)")
      case False
      then have "parseInt (trim raw) = None"
        by (simp add: parseInt_None)
      with True JStr False show ?thesis
        by (simp add: routeThrows_def routeRecord_def routeFields_def conversionFails_def
            ownsToString_def)
    next
      case acc: True
      then obtain a where "parseInt (trim raw) = Some a"
        using parseInt_None [of "trim raw"] by (cases "parseInt (trim raw)") auto
      with True JStr acc o [of "nameField rec ''firstName''"] o [of "nameField rec ''lastName''"]
      show ?thesis
        by (auto simp: routeThrows_def routeRecord_def routeFields_def conversionFails_def
            ownsToString_def split: option.splits)
    qed
  next
    case (JObj kvs)
    show ?thesis
    proof (cases "getProp kvs ''toString''")
      case None
      have "parseInt (trim ''[object Object]'') = None"
        using object_age_rejected by (simp only: parseInt_None) simp
      with True JObj None show ?thesis
        by (simp add: routeThrows_def routeRecord_def routeFields_def conversionFails_def
            ownsToString_def)
    next
      case (Some v)
      with True JObj show ?thesis
        by (simp add: routeThrows_def routeRecord_def routeFields_def conversionFails_def
            ownsToString_def)
    qed
  qed
qed

lemma routeThrows_eq: "routeThrows = conversionFails"
  by (rule ext) (rule routeThrows_conversionFails)

lemma conversionFails_route:
  "conversionFails rec \<Longrightarrow> routeRecord rec = Throws typeError"
  "\<not> conversionFails rec \<Longrightarrow> routeRecord rec \<noteq> Throws err"
proof -
  assume "conversionFails rec"
  then have "routeThrows rec"
    by (simp add: routeThrows_conversionFails)
  from routeThrows_cause [OF this] show "routeRecord rec = Throws typeError"
    by simp
next
  assume "\<not> conversionFails rec"
  then have "\<not> routeThrows rec"
    by (simp add: routeThrows_conversionFails)
  then show "routeRecord rec \<noteq> Throws err"
    by (auto simp: routeThrows_def)
qed

lemma sample_protoFree:
  "protoFree [''name.firstName'', ''name.lastName'', ''age'', ''address.city'', ''gender'']"
  by (simp add: protoFree_def)

text \<open>
  C8, as the code has it, for a file none of whose header keys has a path segment
  \<open>__proto__\<close>. The entry point throws exactly when no file path is configured, when the
  file exists and reading it throws, or when the file holds a record at which a
  conversion to a string is reached and fails: a record whose two name values pass the
  name check and whose age is an object owning a key \<open>toString\<close>, or whose age is a
  string that passes the age check while one of its name values is an object owning a key
  \<open>toString\<close>. A missing file gives the empty summary. In every other run the summary is
  returned: each record has one outcome, a validation failure is a skip entry with its
  reason, a store failure is a skip entry \<open>DB insert error: <message>\<close>, and the rows
  after it are still processed (a store that fails on every row yields one entry per
  record).
\<close>

theorem ingestion_failure_policy:
  "(protoFree (configuredHeaders cfg fs) \<longrightarrow>
      ((\<exists>e. fst (uploadToDB cfg fs query st) = Inl e) \<longleftrightarrow>
         (cfg = None \<or> cfg = Some [] \<or> (\<exists>p msg. cfg = Some p \<and> fs p = Unreadable msg) \<or>
          (\<exists>p text. cfg = Some p \<and> p \<noteq> [] \<and> fs p = FileText text \<and>
             list_ex conversionFails (records (parseCSV text)))))) \<and>
   (conversionFails rec \<longrightarrow> routeRecord rec = Throws typeError) \<and>
   (\<not> conversionFails rec \<longrightarrow> (\<forall>err. routeRecord rec \<noteq> Throws err)) \<and>
   (path \<noteq> [] \<and> fs path = NoFile \<longrightarrow>
      uploadToDB (Some path) fs query st
        = (Inr \<lparr>insertedCount = 0, skipped = [], totalRows = 0\<rparr>, st)) \<and>
   (path \<noteq> [] \<and> fs path = FileText data \<and> protoFree (headers (parseCSV data)) \<and>
    \<not> list_ex conversionFails (records (parseCSV data)) \<longrightarrow>
      (\<exists>s st'. uploadToDB (Some path) fs query st = (Inr s, st') \<and>
         insertedCount s = length (filter (\<lambda>out. out = None)
                               (rowOutcomes query (records (parseCSV data)) st)) \<and>
         skipped s = skipEntries 1 (rowOutcomes query (records (parseCSV data)) st) \<and>
         totalRows s = length (records (parseCSV data)))) \<and>
   (\<not> list_ex conversionFails recs \<longrightarrow>
      rowOutcomes (failingPool m) recs u =
        map (\<lambda>r. case routeRecord r of Skip reason \<Rightarrow> Some reason
                   | _ \<Rightarrow> Some (''DB insert error: '' @ m)) recs)"
proof (intro conjI impI allI)
  show "(\<exists>e. fst (uploadToDB cfg fs query st) = Inl e) \<longleftrightarrow>
      (cfg = None \<or> cfg = Some [] \<or> (\<exists>p msg. cfg = Some p \<and> fs p = Unreadable msg) \<or>
       (\<exists>p text. cfg = Some p \<and> p \<noteq> [] \<and> fs p = FileText text \<and>
          list_ex conversionFails (records (parseCSV text))))"
    using uploadToDB_throws_iff [of cfg fs query st] by (simp only: routeThrows_eq)
next
  assume "conversionFails rec"
  then show "routeRecord rec = Throws typeError"
    by (rule conversionFails_route(1))
next
  fix err
  assume "\<not> conversionFails rec"
  then show "routeRecord rec \<noteq> Throws err"
    by (rule conversionFails_route(2))
next
  assume "path \<noteq> [] \<and> fs path = NoFile"
  then show "uploadToDB (Some path) fs query st
        = (Inr \<lparr>insertedCount = 0, skipped = [], totalRows = 0\<rparr>, st)"
    by (simp add: uploadToDB_missing_file)
next
  assume h: "path \<noteq> [] \<and> fs path = FileText data \<and> protoFree (headers (parseCSV data)) \<and>
             \<not> list_ex conversionFails (records (parseCSV data))"
  then have nt: "\<not> list_ex routeThrows (records (parseCSV data))"
    by (simp only: routeThrows_eq) simp
  from h nt obtain s st' where run: "uploadToDB (Some path) fs query st = (Inr s, st')"
    and ic: "insertedCount s = length (filter (\<lambda>out. out = None)
                               (rowOutcomes query (records (parseCSV data)) st))"
    and sk: "skipped s = skipEntries 1 (rowOutcomes query (records (parseCSV data)) st)"
    using uploadToDB_outcomes [of path fs data query st] by auto
  from uploadToDB_totalRows [OF run] h have "totalRows s = length (records (parseCSV data))"
    by simp
  with run ic sk show "\<exists>s st'. uploadToDB (Some path) fs query st = (Inr s, st') \<and>
         insertedCount s = length (filter (\<lambda>out. out = None)
                               (rowOutcomes query (records (parseCSV data)) st)) \<and>
         skipped s = skipEntries 1 (rowOutcomes query (records (parseCSV data)) st) \<and>
         totalRows s = length (records (parseCSV data))"
    by auto
next
  assume "\<not> list_ex conversionFails recs"
  then have "\<not> list_ex routeThrows recs"
    by (simp only: routeThrows_eq) simp
  then show "rowOutcomes (failingPool m) recs u =
     map (\<lambda>r. case routeRecord r of Skip reason \<Rightarrow> Some reason
                | _ \<Rightarrow> Some (''DB insert error: '' @ m)) recs"
    by (rule rowOutcomes_failing)
qed

theorem ingestion_failure_policy_witness:
  \<open>''users.csv'' \<noteq> [] \<and> singleFile ''users.csv'' sampleCSV ''users.csv'' = FileText sampleCSV \<and>
   protoFree (headers (parseCSV sampleCSV)) \<and>
   protoFree (configuredHeaders (Some ''users.csv'') (singleFile ''users.csv'' sampleCSV)) \<and>
   \<not> list_ex conversionFails (records (parseCSV sampleCSV)) \<and>
   (\<nexists>e. fst (uploadToDB (Some ''users.csv'') (singleFile ''users.csv'' sampleCSV)
                (failingPool ''connection refused'') ()) = Inl e) \<and>
   uploadToDB (Some ''users.csv'') (singleFile ''users.csv'' sampleCSV)
       (failingPool ''connection refused'') () =
     (Inr \<lparr>insertedCount = 0,
            skipped = [(1, ''DB insert error: connection refused''),
                       (2, ''Invalid age: "abc"''),
                       (3, ''Missing name.firstName or name.lastName''),
                       (4, ''DB insert error: connection refused'')],
            totalRows = 4\<rparr>, ())\<close>
proof -
  note pol = ingestion_failure_policy [where path = "''users.csv''"
      and cfg = "Some ''users.csv''"
      and fs = "singleFile ''users.csv'' sampleCSV" and data = sampleCSV
      and query = "failingPool ''connection refused''" and st = "()"
      and m = "''connection refused''" and recs = sampleRecords and u = "()"]
  have recs: "records (parseCSV sampleCSV) = sampleRecords"
    by (simp add: sample_parse)
  have nf: "\<not> list_ex conversionFails sampleRecords"
    using sample_no_throw by (simp only: routeThrows_eq) simp
  have hp: "protoFree (headers (parseCSV sampleCSV))"
    by (simp add: sample_parse sample_protoFree)
  have f: "singleFile ''users.csv'' sampleCSV ''users.csv'' = FileText sampleCSV"
    by (simp add: singleFile_def)
  have cp: "protoFree (configuredHeaders (Some ''users.csv'') (singleFile ''users.csv'' sampleCSV))"
    by (simp add: configuredHeaders_def f hp)
  have src: "''users.csv'' \<noteq> [] \<and> singleFile ''users.csv'' sampleCSV ''users.csv'' = FileText sampleCSV \<and>
      protoFree (headers (parseCSV sampleCSV)) \<and>
      \<not> list_ex conversionFails (records (parseCSV sampleCSV))"
    using f hp nf by (simp add: recs)
  have ret: "\<nexists>e. fst (uploadToDB (Some ''users.csv'') (singleFile ''users.csv'' sampleCSV)
                (failingPool ''connection refused'') ()) = Inl e"
    using pol [THEN conjunct1, rule_format, OF cp] f nf by (simp add: recs)
  have outs: \<open>rowOutcomes (failingPool ''connection refused'') sampleRecords () =
      [Some ''DB insert error: connection refused'', Some ''Invalid age: "abc"'',
       Some ''Missing name.firstName or name.lastName'',
       Some ''DB insert error: connection refused'']\<close>
    using pol [THEN conjunct2, THEN conjunct2, THEN conjunct2, THEN conjunct2, THEN conjunct2,
        rule_format, OF nf]
    by (simp add: sampleRecords_def sample_route_each)
  from pol [THEN conjunct2, THEN conjunct2, THEN conjunct2, THEN conjunct2, THEN conjunct1,
      rule_format, OF src]
  obtain s st' where run: "uploadToDB (Some ''users.csv'') (singleFile ''users.csv'' sampleCSV)
       (failingPool ''connection refused'') () = (Inr s, st')"
    and ic: "insertedCount s = length (filter (\<lambda>out. out = None)
        (rowOutcomes (failingPool ''connection refused'') (records (parseCSV sampleCSV)) ()))"
    and sk: "skipped s = skipEntries 1
        (rowOutcomes (failingPool ''connection refused'') (records (parseCSV sampleCSV)) ())"
    and tr: "totalRows s = length (records (parseCSV sampleCSV))"
    by auto
  have "length sampleRecords = 4"
    by (simp add: sampleRecords_def)
  with ic sk tr have \<open>s = \<lparr>insertedCount = 0,
            skipped = [(1, ''DB insert error: connection refused''),
                       (2, ''Invalid age: "abc"''),
                       (3, ''Missing name.firstName or name.lastName''),
                       (4, ''DB insert error: connection refused'')],
            totalRows = 4\<rparr>\<close>
    by (simp add: recs outs)
  with run src cp ret show ?thesis
    by simp
qed

lemma toString_header_parse:
  "parseCSV ''name.firstName,name.lastName,age.toString\<newline>A,B,5'' =
     \<lparr>headers = [''name.firstName'', ''name.lastName'', ''age.toString''],
      records = [[(''name'', JObj [(''firstName'', JStr ''A''), (''lastName'', JStr ''B'')]),
                  (''age'', JObj [(''toString'', JStr ''5'')])]]\<rparr>"
  by (simp add: eval_text eval_row)

text \<open>
  C8 as stated fails: with a path configured that names a directory, \<open>existsSync\<close> is
  true, \<open>readFileSync\<close> throws, and the error leaves \<open>uploadToDB\<close>; and under the header
  \<open>name.firstName,name.lastName,age.toString\<close> the row \<open>A,B,5\<close> has an object owning a
  key \<open>toString\<close> as its age, \<open>String(ageRaw)\<close> throws in the loop, and the error leaves
  \<open>uploadToDB\<close>.
\<close>

theorem ingestion_read_error_counterexample:
  "uploadToDB (Some ''data'') (directoryAt ''data'') acceptingPool () =
     (Inl (Thrown ''EISDIR: illegal operation on a directory, read''), ()) \<and>
   uploadToDB (Some ''users.csv'')
      (singleFile ''users.csv'' ''name.firstName,name.lastName,age.toString\<newline>A,B,5'')
      acceptingPool ()
     = (Inl (Thrown ''TypeError: Cannot convert object to primitive value''), ())"
  by (simp add: uploadToDB_def directoryAt_def singleFile_def uploadParsed_def
      toString_header_parse eval_route typeError_def)

section \<open>Double-precision rounding and the percentages\<close>

lemma expo_bounds_ge1:
  assumes "1 \<le> (x :: rat)"
  shows "2 powi (expo x) \<le> x \<and> x < 2 powi (expo x + 1)"
proof -
  define k where "k = \<lfloor>x\<rfloor>"
  have kpos: "0 < k" using assms by (simp add: k_def)
  from bitlen_bounds [OF kpos] have lo: "2 ^ nat (bitlen k - 1) \<le> k" and hi: "k < 2 ^ nat (bitlen k)"
    by simp_all
  have b1: "1 \<le> bitlen k"
    using kpos by (simp add: bitlen_alt_def)
  have e: "expo x = bitlen k - 1"
    using assms by (simp add: expo_def k_def)
  have "(2 :: rat) powi (bitlen k - 1) = 2 ^ nat (bitlen k - 1)"
    using b1 by (simp add: power_int_nonneg_exp)
  also have "\<dots> = of_int (2 ^ nat (bitlen k - 1))" by simp
  also have "\<dots> \<le> of_int k" using lo by (simp only: of_int_le_iff)
  also have "\<dots> \<le> x" by (simp add: k_def)
  finally have l: "2 powi (expo x) \<le> x" by (simp add: e)
  have "k + 1 \<le> 2 ^ nat (bitlen k)" using hi by simp
  then have up: "(of_int (k + 1) :: rat) \<le> of_int (2 ^ nat (bitlen k))"
    by (simp only: of_int_le_iff)
  have "x < of_int (k + 1)" unfolding k_def by linarith
  also note up
  also have "(of_int (2 ^ nat (bitlen k)) :: rat) = 2 ^ nat (bitlen k)" by simp
  also have "\<dots> = 2 powi (bitlen k)"
    using b1 by (simp add: power_int_nonneg_exp)
  finally have "x < 2 powi (expo x + 1)" by (simp add: e)
  with l show ?thesis ..
qed

lemma expo_bounds_lt1:
  assumes "0 < (x :: rat)" "x < 1"
  shows "2 powi (expo x) \<le> x \<and> x < 2 powi (expo x + 1)"
proof -
  define y where "y = 1 / x"
  define k where "k = \<lceil>y\<rceil> - 1"
  have y1: "1 < y" using assms by (simp add: y_def)
  then have "1 < \<lceil>y\<rceil>" by (simp add: less_ceiling_iff)
  then have kpos: "0 < k" by (simp add: k_def)
  from bitlen_bounds [OF kpos] have lo: "2 ^ nat (bitlen k - 1) \<le> k" and hi: "k < 2 ^ nat (bitlen k)"
    by simp_all
  have b1: "1 \<le> bitlen k"
    using kpos by (simp add: bitlen_alt_def)
  have e: "expo x = - bitlen k"
    using assms by (simp add: expo_def k_def y_def)
  have ky: "of_int k < y"
    unfolding k_def using ceiling_correct [of y] by simp
  have "k + 1 \<le> 2 ^ nat (bitlen k)" using hi by simp
  then have up: "(of_int (k + 1) :: rat) \<le> of_int (2 ^ nat (bitlen k))"
    by (simp only: of_int_le_iff)
  have yk: "y \<le> of_int (k + 1)"
    unfolding k_def by (simp add: le_of_int_ceiling)
  also note up
  also have "(of_int (2 ^ nat (bitlen k)) :: rat) = 2 ^ nat (bitlen k)" by simp
  also have "\<dots> = 2 powi (bitlen k)"
    using b1 by (simp add: power_int_nonneg_exp)
  finally have "y \<le> 2 powi (bitlen k)" .
  then have "1 / (2 powi (bitlen k)) \<le> 1 / y"
    using y1 by (intro divide_left_mono) (simp_all add: mult_pos_pos)
  then have l: "2 powi (expo x) \<le> x"
    using assms by (simp add: e y_def power_int_minus_divide)
  have "(2 :: rat) powi (bitlen k - 1) = 2 ^ nat (bitlen k - 1)"
    using b1 by (simp add: power_int_nonneg_exp)
  also have "\<dots> = of_int (2 ^ nat (bitlen k - 1))" by simp
  also have "\<dots> \<le> of_int k" using lo by (simp only: of_int_le_iff)
  also have "\<dots> < y" by (rule ky)
  finally have "2 powi (bitlen k - 1) < y" .
  moreover have "0 < y" using y1 by simp
  ultimately have "1 / y < 1 / (2 powi (bitlen k - 1))"
    by (intro divide_strict_left_mono) (simp_all add: mult_pos_pos)
  moreover have "1 / ((2 :: rat) powi (bitlen k - 1)) = 2 powi (- bitlen k + 1)"
    using power_int_minus_divide [of "2 :: rat" "bitlen k - 1"] by simp
  ultimately have "x < 2 powi (expo x + 1)"
    using assms by (simp add: e y_def)
  with l show ?thesis ..
qed

lemma expo_bounds:
  "0 < (x :: rat) \<Longrightarrow> 2 powi (expo x) \<le> x \<and> x < 2 powi (expo x + 1)"
  using expo_bounds_ge1 [of x] expo_bounds_lt1 [of x] by (cases "1 \<le> x") auto

lemma expo_unique:
  assumes "0 < (x :: rat)" "2 powi e \<le> x" "x < 2 powi (e + 1)"
  shows "expo x = e"
proof -
  from expo_bounds [OF assms(1)] have b: "2 powi (expo x) \<le> x" "x < 2 powi (expo x + 1)"
    by simp_all
  have "(2 :: rat) powi e < 2 powi (expo x + 1)"
    using assms(2) b(2) by (rule le_less_trans)
  then have 1: "e < expo x + 1"
    using power_int_increasing [of "expo x + 1" e "2 :: rat"] by (cases "e < expo x + 1") auto
  have "(2 :: rat) powi (expo x) < 2 powi (e + 1)"
    using b(1) assms(3) by (rule le_less_trans)
  then have 2: "expo x < e + 1"
    using power_int_increasing [of "e + 1" "expo x" "2 :: rat"] by (cases "expo x < e + 1") auto
  from 1 2 show ?thesis by simp
qed

lemma roundHalfEven_err: "\<bar>of_int (roundHalfEven y) - y\<bar> \<le> 1 / 2"
proof -
  have "of_int \<lfloor>y\<rfloor> \<le> y" "y < of_int \<lfloor>y\<rfloor> + 1"
    by linarith+
  then show ?thesis
    by (auto simp: roundHalfEven_def tieToEven_def)
qed

lemma roundHalfEven_cert:
  assumes "\<bar>y - of_int m\<bar> < 1 / 2"
  shows "roundHalfEven y = m"
proof -
  have "\<bar>of_int (roundHalfEven y) - y\<bar> \<le> 1 / 2"
    by (rule roundHalfEven_err)
  with assms have "\<bar>(of_int (roundHalfEven y) :: rat) - of_int m\<bar> < 1"
    by linarith
  then have "\<bar>(of_int (roundHalfEven y - m) :: rat)\<bar> < 1"
    by simp
  then have "\<bar>roundHalfEven y - m\<bar> < 1"
    by (simp only: of_int_abs [symmetric] of_int_less_1_iff)
  then show ?thesis by simp
qed

lemma expo_ge:
  assumes "0 < (x :: rat)" "2 powi e \<le> x"
  shows "e \<le> expo x"
proof -
  from expo_bounds [OF assms(1)] have "x < 2 powi (expo x + 1)" by simp
  with assms(2) have "(2 :: rat) powi e < 2 powi (expo x + 1)" by simp
  then have "e < expo x + 1"
    using power_int_increasing [of "expo x + 1" e "2 :: rat"] by (cases "e < expo x + 1") auto
  then show ?thesis by simp
qed

lemma fl_normal:
  assumes "0 < x" "- 1022 \<le> expo x"
  shows "fl x = of_int (roundHalfEven (x / 2 powi (expo x - 52))) * 2 powi (expo x - 52)"
  using assms by (simp add: fl_def roundToUnit_def max_def)

lemma fl_rel_err:
  assumes "0 < x" "2 powi (- 1022) \<le> x"
  shows "\<bar>fl x - x\<bar> \<le> x * 2 powi (- 53)"
proof -
  define u :: rat where "u = 2 powi (expo x - 52)"
  have e: "- 1022 \<le> expo x"
    using assms by (rule expo_ge)
  have upos: "0 < u" by (simp add: u_def)
  have "fl x - x = (of_int (roundHalfEven (x / u)) - x / u) * u"
    using upos by (simp add: fl_normal [OF assms(1) e] u_def algebra_simps)
  then have "\<bar>fl x - x\<bar> = \<bar>of_int (roundHalfEven (x / u)) - x / u\<bar> * u"
    using upos by (simp add: abs_mult)
  also have "\<dots> \<le> 1 / 2 * u"
    using upos roundHalfEven_err [of "x / u"] by (intro mult_right_mono) simp_all
  also have "1 / 2 * u = 2 powi (expo x) * 2 powi (- 53)"
    unfolding u_def by (simp add: power_int_diff power_int_minus_divide)
  also have "\<dots> \<le> x * 2 powi (- 53)"
    using expo_bounds [OF assms(1)] by (intro mult_right_mono) simp_all
  finally show ?thesis .
qed

lemma fl_cert:
  assumes "0 < x" "2 powi e \<le> x" "x < 2 powi (e + 1)" "- 1022 \<le> e"
    and "\<bar>x / 2 powi (e - 52) - of_int m\<bar> < 1 / 2"
  shows "fl x = of_int m * 2 powi (e - 52)"
proof -
  have "expo x = e" using assms(1-3) by (rule expo_unique)
  with assms(1,4) fl_normal [of x] roundHalfEven_cert [OF assms(5)] show ?thesis
    by simp
qed

lemma eps_val: "(2 :: rat) powi (- 53) = 1 / 9007199254740992"
  by (simp add: power_int_minus_divide)

lemma delta_val: "(2 :: rat) powi (- 45) = 1 / 35184372088832"
  by (simp add: power_int_minus_divide)

lemma tiny_le: "(2 :: rat) powi (- 1022) \<le> 1 / 4294967296"
proof -
  have "(2 :: rat) powi (- 1022) \<le> 2 powi (- 32)"
    by (rule power_int_increasing) simp_all
  then show ?thesis
    by (simp add: power_int_minus_divide)
qed

lemma ratio_bounds:
  fixes c t :: nat
  assumes "0 < c" "c \<le> t" "t < 2 ^ 32"
  shows "1 / 2 ^ 32 \<le> (of_nat c / of_nat t :: rat)" and "(of_nat c / of_nat t :: rat) \<le> 1"
proof -
  have t: "(0 :: rat) < of_nat t" "(of_nat t :: rat) \<le> 2 ^ 32" "(1 :: rat) \<le> of_nat c"
    "(of_nat c :: rat) \<le> of_nat t"
    using assms by (simp_all add: of_nat_less_numeral_power_cancel_iff [where 'a = rat] less_imp_le
        del: of_nat_less_numeral_power_cancel_iff)
  have "(1 :: rat) / 2 ^ 32 \<le> 1 / of_nat t"
    using t(1,2) by (intro divide_left_mono) simp_all
  also have "\<dots> \<le> of_nat c / of_nat t"
    using t(1,3) by (intro divide_right_mono) simp_all
  finally show "1 / 2 ^ 32 \<le> (of_nat c / of_nat t :: rat)" .
  show "(of_nat c / of_nat t :: rat) \<le> 1"
    using t(1,4) by simp
qed

lemma percent_close:
  fixes c t :: nat
  assumes "0 < c" "c \<le> t" "t < 2 ^ 32"
  shows "\<bar>fl (fl (of_nat c / of_nat t) * 100) - of_nat c / of_nat t * 100\<bar> < 2 powi (- 45)"
proof -
  define x :: rat where "x = of_nat c / of_nat t"
  define q where "q = fl x"
  define z where "z = q * 100"
  from ratio_bounds [OF assms] have xl: "1 / 4294967296 \<le> x" and xu: "x \<le> 1"
    by (simp_all add: x_def)
  then have xpos: "0 < x" by simp
  have xn: "2 powi (- 1022) \<le> x"
    using tiny_le xl by linarith
  from fl_rel_err [OF xpos xn] have d1: "\<bar>q - x\<bar> \<le> x / 9007199254740992"
    by (simp add: q_def eps_val)
  have ql: "x / 2 \<le> q" and qu: "q \<le> x + x / 9007199254740992"
    using d1 xpos by linarith+
  have zpos: "0 < z"
    using ql xpos unfolding z_def by linarith
  have zl: "1 / 4294967296 \<le> z"
    using ql xl unfolding z_def by linarith
  have zn: "2 powi (- 1022) \<le> z"
    using tiny_le zl by linarith
  have zu: "z \<le> 101"
    using qu xu unfolding z_def by linarith
  from fl_rel_err [OF zpos zn] have d2: "\<bar>fl z - z\<bar> \<le> z / 9007199254740992"
    by (simp add: eps_val)
  have "\<bar>fl z - x * 100\<bar> \<le> 201 / 9007199254740992"
    using d1 d2 zu xu unfolding z_def by linarith
  also have "\<dots> < 2 powi (- 45)"
    by (simp add: delta_val)
  finally show ?thesis
    by (simp add: z_def q_def x_def)
qed

lemma floor_half: "\<lfloor>1 / 2 :: rat\<rfloor> = 0"
  by linarith

lemma percentOf_zero: "percentOf 0 t = 0" "exactPercent 0 t = 0" "\<not> percentTie 0 t"
  by (simp_all add: percentOf_def fl_def mathRound_def exactPercent_def percentTie_def floor_half)

text \<open>
  The exact percentage plus one half is a fraction with denominator \<open>2 * t\<close>: it is an
  integer at a tie, and otherwise at least \<open>1 / (2 * t)\<close> away from every integer.
\<close>

lemma percent_gap:
  fixes c t :: nat
  assumes "0 < t"
  defines "y \<equiv> (of_nat c / of_nat t :: rat) * 100"
  defines "m \<equiv> \<lfloor>y + 1 / 2\<rfloor>"
  shows "of_int m \<le> y + 1 / 2" and "y + 1 / 2 < of_int m + 1"
    and "\<not> percentTie c t \<Longrightarrow> of_int m + 1 / (2 * of_nat t) \<le> y + 1 / 2"
    and "y + 1 / 2 \<le> of_int m + 1 - 1 / (2 * of_nat t)"
proof -
  define D :: int where "D = 2 * int t"
  define a :: int where "a = 200 * int c + int t - m * D"
  have Dpos: "0 < D" using assms(1) by (simp add: D_def)
  have Dr: "(of_int D :: rat) = 2 * of_nat t" by (simp add: D_def)
  have tpos: "(0 :: rat) < of_nat t" using assms(1) by simp
  have ya: "y + 1 / 2 - of_int m = of_int a / of_int D"
    using tpos by (simp add: y_def a_def D_def field_simps)
  show lo: "of_int m \<le> y + 1 / 2" and hi: "y + 1 / 2 < of_int m + 1"
    unfolding m_def by linarith+
  from lo ya have "0 \<le> (of_int a :: rat) / of_int D" by simp
  then have a0: "0 \<le> a"
    using Dpos by (simp add: zero_le_divide_iff)
  from hi ya have "(of_int a :: rat) / of_int D < 1" by simp
  then have "(of_int a :: rat) < of_int D"
    using Dpos by (simp add: divide_less_eq)
  then have "a < D" by (simp only: of_int_less_iff)
  then have "a \<le> D - 1" by simp
  then have "(of_int a :: rat) \<le> of_int (D - 1)" by (simp only: of_int_le_iff)
  then have "(of_int a :: rat) / of_int D \<le> of_int (D - 1) / of_int D"
    using Dpos by (intro divide_right_mono) simp_all
  also have "\<dots> = 1 - 1 / of_int D"
    using Dpos by (simp add: field_simps)
  finally show "y + 1 / 2 \<le> of_int m + 1 - 1 / (2 * of_nat t)"
    using ya by (simp add: Dr)
  assume nt: "\<not> percentTie c t"
  have "a \<noteq> 0"
  proof
    assume "a = 0"
    with ya have "y = of_int m - 1 / 2" by simp
    then have "y - 1 / 2 = of_int (m - 1)" by simp
    then have "y - 1 / 2 \<in> \<int>" by (simp only: Ints_of_int)
    then have "frac y = 1 / 2"
      using frac_unique_iff [of y "1 / 2"] by simp
    with nt show False by (simp add: percentTie_def y_def)
  qed
  with a0 have "1 \<le> a" by simp
  then have "(1 :: rat) \<le> of_int a" by (simp only: of_int_1_le_iff)
  then have "(1 :: rat) / of_int D \<le> of_int a / of_int D"
    using Dpos by (intro divide_right_mono) simp_all
  then show "of_int m + 1 / (2 * of_nat t) \<le> y + 1 / 2"
    using ya by (simp add: Dr)
qed

lemma percent_floor:
  fixes c t :: nat
  assumes "0 < t" "c \<le> t" "t < 2 ^ 32"
  shows "\<not> percentTie c t \<Longrightarrow> percentOf c t = exactPercent c t"
    and "percentOf c t = exactPercent c t \<or> percentOf c t = exactPercent c t - 1"
proof -
  define y :: rat where "y = of_nat c / of_nat t * 100"
  define m where "m = \<lfloor>y + 1 / 2\<rfloor>"
  define p where "p = fl (fl (of_nat c / of_nat t) * 100)"
  have m: "exactPercent c t = m" by (simp add: exactPercent_def m_def y_def)
  have pc: "percentOf c t = \<lfloor>p + 1 / 2\<rfloor>" by (simp add: percentOf_def mathRound_def p_def)
  have tr: "(1 :: rat) / 8589934592 \<le> 1 / (2 * of_nat t)"
  proof -
    have "(of_nat t :: rat) \<le> 2 ^ 32"
      using assms(3) by (simp add: of_nat_less_numeral_power_cancel_iff [where 'a = rat] less_imp_le
        del: of_nat_less_numeral_power_cancel_iff)
    moreover have "(0 :: rat) < of_nat t" using assms(1) by simp
    ultimately show ?thesis
      by (intro divide_left_mono) simp_all
  qed
  have close: "\<bar>p - y\<bar> < 1 / 35184372088832"
  proof (cases "c = 0")
    case True
    then show ?thesis by (simp add: p_def y_def fl_def)
  next
    case False
    then have "0 < c" by simp
    from percent_close [OF this assms(2,3)] show ?thesis
      by (simp add: p_def y_def delta_val)
  qed
  note gap = percent_gap [OF assms(1), of c, folded y_def, folded m_def]
  have up: "p + 1 / 2 < of_int m + 1"
    using close gap(4) tr by linarith
  have low: "of_int m - 1 < p + 1 / 2"
    using close gap(1) by linarith
  show "percentOf c t = exactPercent c t \<or> percentOf c t = exactPercent c t - 1"
  proof (cases "of_int m \<le> p + 1 / 2")
    case True
    with up have "\<lfloor>p + 1 / 2\<rfloor> = m" by linarith
    then show ?thesis by (simp add: pc m)
  next
    case False
    with low have "\<lfloor>p + 1 / 2\<rfloor> = m - 1" by linarith
    then show ?thesis by (simp add: pc m)
  qed
  assume "\<not> percentTie c t"
  from gap(3) [OF this] close tr have "of_int m \<le> p + 1 / 2"
    by linarith
  with up have "\<lfloor>p + 1 / 2\<rfloor> = m" by linarith
  then show "percentOf c t = exactPercent c t" by (simp add: pc m)
qed

lemma fl_23_40: "fl (23 / 40) = 5179139571476070 / 9007199254740992"
proof -
  have "fl (23 / 40) = of_int 5179139571476070 * 2 powi (- 1 - 52)"
    by (rule fl_cert) (simp_all add: power_int_minus_divide)
  then show ?thesis by (simp add: power_int_minus_divide)
qed

lemma fl_23_40_times_100:
  "fl (5179139571476070 / 9007199254740992 * 100) = 8092405580431359 / 140737488355328"
proof -
  have "fl (5179139571476070 / 9007199254740992 * 100) = of_int 8092405580431359 * 2 powi (5 - 52)"
    by (rule fl_cert) (simp_all add: power_int_minus_divide)
  then show ?thesis by (simp add: power_int_minus_divide)
qed

lemma percentOf_23_40: "percentOf 23 40 = 57"
proof -
  have "percentOf 23 40 = mathRound (fl (fl (23 / 40) * 100))"
    by (simp add: percentOf_def)
  also have "\<dots> = mathRound (fl (5179139571476070 / 9007199254740992 * 100))"
    by (simp only: fl_23_40)
  also have "\<dots> = mathRound (8092405580431359 / 140737488355328)"
    by (simp only: fl_23_40_times_100)
  also have "\<dots> = 57"
    unfolding mathRound_def by linarith
  finally show ?thesis .
qed

lemma fl_17_40: "fl (17 / 40) = 7656119366529843 / 18014398509481984"
proof -
  have "fl (17 / 40) = of_int 7656119366529843 * 2 powi (- 2 - 52)"
    by (rule fl_cert) (simp_all add: power_int_minus_divide)
  then show ?thesis by (simp add: power_int_minus_divide)
qed

lemma fl_17_40_times_100:
  "fl (7656119366529843 / 18014398509481984 * 100) = 5981343255101440 / 140737488355328"
proof -
  have "fl (7656119366529843 / 18014398509481984 * 100) = of_int 5981343255101440 * 2 powi (5 - 52)"
    by (rule fl_cert) (simp_all add: power_int_minus_divide)
  then show ?thesis by (simp add: power_int_minus_divide)
qed

lemma percentOf_17_40: "percentOf 17 40 = 43"
proof -
  have "percentOf 17 40 = mathRound (fl (fl (17 / 40) * 100))"
    by (simp add: percentOf_def)
  also have "\<dots> = mathRound (fl (7656119366529843 / 18014398509481984 * 100))"
    by (simp only: fl_17_40)
  also have "\<dots> = mathRound (5981343255101440 / 140737488355328)"
    by (simp only: fl_17_40_times_100)
  also have "\<dots> = 43"
    unfolding mathRound_def by linarith
  finally show ?thesis .
qed

lemma exactPercent_23_40: "exactPercent 23 40 = 58" "percentTie 23 40"
proof -
  show "exactPercent 23 40 = 58"
    by (simp add: exactPercent_def)
  have "(115 / 2 :: rat) - 1 / 2 = of_int 57" by simp
  then have "(115 / 2 :: rat) - 1 / 2 \<in> \<int>" by (simp only: Ints_of_int)
  then have "frac (115 / 2 :: rat) = 1 / 2"
    using frac_unique_iff [of "115 / 2 :: rat" "1 / 2"] by simp
  then show "percentTie 23 40"
    by (simp add: percentTie_def)
qed

lemma foldl_countAge:
  "lt20 (foldl countAge g ages) = lt20 g + length (filter (\<lambda>a. a \<le> 20) ages) \<and>
   g20_40 (foldl countAge g ages) = g20_40 g + length (filter (\<lambda>a. 20 < a \<and> a \<le> 40) ages) \<and>
   g40_60 (foldl countAge g ages) = g40_60 g + length (filter (\<lambda>a. 40 < a \<and> a \<le> 60) ages) \<and>
   gt60 (foldl countAge g ages) = gt60 g + length (filter (\<lambda>a. 60 < a) ages)"
  by (induction ages arbitrary: g) (auto simp: countAge_def)

lemma countGroups_buckets:
  "lt20 (countGroups ages) = length (filter (\<lambda>a. a \<le> 20) ages)"
  "g20_40 (countGroups ages) = length (filter (\<lambda>a. 20 < a \<and> a \<le> 40) ages)"
  "g40_60 (countGroups ages) = length (filter (\<lambda>a. 40 < a \<and> a \<le> 60) ages)"
  "gt60 (countGroups ages) = length (filter (\<lambda>a. 60 < a) ages)"
  using foldl_countAge [of "\<lparr>lt20 = 0, g20_40 = 0, g40_60 = 0, gt60 = 0\<rparr>" ages]
  by (simp_all add: countGroups_def)

lemma bucket_partition:
  "length (filter (\<lambda>a. a \<le> 20) ages) + length (filter (\<lambda>a. 20 < a \<and> a \<le> 40) ages) +
   length (filter (\<lambda>a. 40 < a \<and> a \<le> 60) ages) + length (filter (\<lambda>a. 60 < a) ages)
   = length (ages :: int list)"
  by (induction ages) auto

lemma countGroups_total:
  "lt20 (countGroups ages) + g20_40 (countGroups ages) + g40_60 (countGroups ages) +
   gt60 (countGroups ages) = length ages"
  by (simp only: countGroups_buckets bucket_partition)

lemma percent_quarter: "\<not> percentTie 1 4" "exactPercent 1 4 = 25" "percentOf 1 4 = 25"
proof -
  show nt: "\<not> percentTie 1 4"
    by (simp add: percentTie_def frac_def)
  show e: "exactPercent 1 4 = 25"
    by (simp add: exactPercent_def) linarith
  have "percentOf 1 4 = exactPercent 1 4"
    by (rule percent_floor(1) [OF _ _ _ nt]) simp_all
  with e show "percentOf 1 4 = 25" by simp
qed

lemma distribution_example:
  "printAgeDistribution [15, 25, 45, 70]
     = Some \<lparr>p_lt20 = 25, p_20_40 = 25, p_40_60 = 25, p_gt60 = 25\<rparr>"
proof -
  have "countGroups [15, 25, 45, 70] = \<lparr>lt20 = 1, g20_40 = 1, g40_60 = 1, gt60 = 1\<rparr>"
    by (simp add: countGroups_def countAge_def)
  moreover have "percentOf (Suc 0) (Suc (Suc (Suc (Suc 0)))) = 25"
    using percent_quarter(3) by (simp add: numeral_eq_Suc)
  ultimately show ?thesis
    by (simp add: printAgeDistribution_def groupPercents_def)
qed

lemma halfUpOffTies_percentOf:
  fixes c t :: nat
  assumes "0 < t" "c \<le> t" "t < 2 ^ 32"
  shows "halfUpOffTies (percentOf c t) c t"
  using percent_floor [OF assms] by (auto simp: halfUpOffTies_def)

lemma printAgeDistribution_fields:
  assumes "ages \<noteq> []"
  shows "\<exists>p. printAgeDistribution ages = Some p \<and>
           p_lt20 p = percentOf (length (filter (\<lambda>a. a \<le> 20) ages)) (length ages) \<and>
           p_20_40 p = percentOf (length (filter (\<lambda>a. 20 < a \<and> a \<le> 40) ages)) (length ages) \<and>
           p_40_60 p = percentOf (length (filter (\<lambda>a. 40 < a \<and> a \<le> 60) ages)) (length ages) \<and>
           p_gt60 p = percentOf (length (filter (\<lambda>a. 60 < a) ages)) (length ages)"
  using assms by (simp add: printAgeDistribution_def groupPercents_def countGroups_buckets)

lemma printAgeDistribution_exact:
  assumes "ages \<noteq> []" "length ages < 2 ^ 32"
  shows "\<exists>p. printAgeDistribution ages = Some p \<and>
           halfUpOffTies (p_lt20 p) (length (filter (\<lambda>a. a \<le> 20) ages)) (length ages) \<and>
           halfUpOffTies (p_20_40 p) (length (filter (\<lambda>a. 20 < a \<and> a \<le> 40) ages)) (length ages) \<and>
           halfUpOffTies (p_40_60 p) (length (filter (\<lambda>a. 40 < a \<and> a \<le> 60) ages)) (length ages) \<and>
           halfUpOffTies (p_gt60 p) (length (filter (\<lambda>a. 60 < a) ages)) (length ages)"
proof -
  from assms(1) have pos: "0 < length ages"
    by simp
  have h: "halfUpOffTies (percentOf (length (filter P ages)) (length ages))
             (length (filter P ages)) (length ages)" for P
    by (rule halfUpOffTies_percentOf [OF pos length_filter_le assms(2)])
  from printAgeDistribution_fields [OF assms(1)] obtain p
    where p: "printAgeDistribution ages = Some p"
      "p_lt20 p = percentOf (length (filter (\<lambda>a. a \<le> 20) ages)) (length ages)"
      "p_20_40 p = percentOf (length (filter (\<lambda>a. 20 < a \<and> a \<le> 40) ages)) (length ages)"
      "p_40_60 p = percentOf (length (filter (\<lambda>a. 40 < a \<and> a \<le> 60) ages)) (length ages)"
      "p_gt60 p = percentOf (length (filter (\<lambda>a. 60 < a) ages)) (length ages)"
    by blast
  have "halfUpOffTies (p_lt20 p) (length (filter (\<lambda>a. a \<le> 20) ages)) (length ages)"
    unfolding p(2) by (rule h)
  moreover
  have "halfUpOffTies (p_20_40 p) (length (filter (\<lambda>a. 20 < a \<and> a \<le> 40) ages)) (length ages)"
    unfolding p(3) by (rule h)
  moreover
  have "halfUpOffTies (p_40_60 p) (length (filter (\<lambda>a. 40 < a \<and> a \<le> 60) ages)) (length ages)"
    unfolding p(4) by (rule h)
  moreover
  have "halfUpOffTies (p_gt60 p) (length (filter (\<lambda>a. 60 < a) ages)) (length ages)"
    unfolding p(5) by (rule h)
  ultimately show ?thesis
    using p(1) by blast
qed

text \<open>
  C7, as the code has it. Every age is counted in exactly one of the four buckets
  (\<open>age \<le> 20\<close>, \<open>20 < age \<le> 40\<close>, \<open>40 < age \<le> 60\<close>, \<open>age > 60\<close>), so the counts sum to
  the total. For a non-empty list of ages the reporter gives, for each bucket,
  \<open>Math.round\<close> of the double-precision value of \<open>count / total * 100\<close>, where \<open>count\<close>
  is the number of ages in that bucket and \<open>total\<close> the number of ages: for a total below
  \<open>2^32\<close> it is the exact percentage of that bucket rounded half up unless the exact
  percentage lies halfway between two integers, where it is that value or one less. The
  ages 15, 25, 45, 70 give 25 for every bucket.
\<close>

theorem age_distribution:
  "lt20 (countGroups ages) = length (filter (\<lambda>a. a \<le> 20) ages) \<and>
   g20_40 (countGroups ages) = length (filter (\<lambda>a. 20 < a \<and> a \<le> 40) ages) \<and>
   g40_60 (countGroups ages) = length (filter (\<lambda>a. 40 < a \<and> a \<le> 60) ages) \<and>
   gt60 (countGroups ages) = length (filter (\<lambda>a. 60 < a) ages) \<and>
   lt20 (countGroups ages) + g20_40 (countGroups ages) + g40_60 (countGroups ages) +
     gt60 (countGroups ages) = length ages \<and>
   (ages \<noteq> [] \<longrightarrow>
      (\<exists>p. printAgeDistribution ages = Some p \<and>
         p_lt20 p = percentOf (length (filter (\<lambda>a. a \<le> 20) ages)) (length ages) \<and>
         p_20_40 p = percentOf (length (filter (\<lambda>a. 20 < a \<and> a \<le> 40) ages)) (length ages) \<and>
         p_40_60 p = percentOf (length (filter (\<lambda>a. 40 < a \<and> a \<le> 60) ages)) (length ages) \<and>
         p_gt60 p = percentOf (length (filter (\<lambda>a. 60 < a) ages)) (length ages))) \<and>
   (ages \<noteq> [] \<and> length ages < 2 ^ 32 \<longrightarrow>
      (\<exists>p. printAgeDistribution ages = Some p \<and>
         halfUpOffTies (p_lt20 p) (length (filter (\<lambda>a. a \<le> 20) ages)) (length ages) \<and>
         halfUpOffTies (p_20_40 p) (length (filter (\<lambda>a. 20 < a \<and> a \<le> 40) ages)) (length ages) \<and>
         halfUpOffTies (p_40_60 p) (length (filter (\<lambda>a. 40 < a \<and> a \<le> 60) ages)) (length ages) \<and>
         halfUpOffTies (p_gt60 p) (length (filter (\<lambda>a. 60 < a) ages)) (length ages))) \<and>
   (0 < t \<and> c \<le> t \<and> t < 2 ^ 32 \<longrightarrow>
      (\<not> percentTie c t \<longrightarrow> percentOf c t = exactPercent c t) \<and>
      (percentOf c t = exactPercent c t \<or> percentOf c t = exactPercent c t - 1)) \<and>
   printAgeDistribution [15, 25, 45, 70]
     = Some \<lparr>p_lt20 = 25, p_20_40 = 25, p_40_60 = 25, p_gt60 = 25\<rparr>"
proof (intro conjI impI)
  show "lt20 (countGroups ages) = length (filter (\<lambda>a. a \<le> 20) ages)"
    "g20_40 (countGroups ages) = length (filter (\<lambda>a. 20 < a \<and> a \<le> 40) ages)"
    "g40_60 (countGroups ages) = length (filter (\<lambda>a. 40 < a \<and> a \<le> 60) ages)"
    "gt60 (countGroups ages) = length (filter (\<lambda>a. 60 < a) ages)"
    by (rule countGroups_buckets)+
  show "lt20 (countGroups ages) + g20_40 (countGroups ages) + g40_60 (countGroups ages) +
     gt60 (countGroups ages) = length ages"
    by (rule countGroups_total)
  show "printAgeDistribution [15, 25, 45, 70]
     = Some \<lparr>p_lt20 = 25, p_20_40 = 25, p_40_60 = 25, p_gt60 = 25\<rparr>"
    by (rule distribution_example)
next
  assume "ages \<noteq> []"
  then show "\<exists>p. printAgeDistribution ages = Some p \<and>
         p_lt20 p = percentOf (length (filter (\<lambda>a. a \<le> 20) ages)) (length ages) \<and>
         p_20_40 p = percentOf (length (filter (\<lambda>a. 20 < a \<and> a \<le> 40) ages)) (length ages) \<and>
         p_40_60 p = percentOf (length (filter (\<lambda>a. 40 < a \<and> a \<le> 60) ages)) (length ages) \<and>
         p_gt60 p = percentOf (length (filter (\<lambda>a. 60 < a) ages)) (length ages)"
    by (rule printAgeDistribution_fields)
next
  assume "ages \<noteq> [] \<and> length ages < 2 ^ 32"
  then show "\<exists>p. printAgeDistribution ages = Some p \<and>
         halfUpOffTies (p_lt20 p) (length (filter (\<lambda>a. a \<le> 20) ages)) (length ages) \<and>
         halfUpOffTies (p_20_40 p) (length (filter (\<lambda>a. 20 < a \<and> a \<le> 40) ages)) (length ages) \<and>
         halfUpOffTies (p_40_60 p) (length (filter (\<lambda>a. 40 < a \<and> a \<le> 60) ages)) (length ages) \<and>
         halfUpOffTies (p_gt60 p) (length (filter (\<lambda>a. 60 < a) ages)) (length ages)"
    using printAgeDistribution_exact [of ages] by blast
next
  assume h: "0 < t \<and> c \<le> t \<and> t < 2 ^ 32"
  then show "\<not> percentTie c t \<Longrightarrow> percentOf c t = exactPercent c t"
    using percent_floor(1) [of t c] by blast
  from h show "percentOf c t = exactPercent c t \<or> percentOf c t = exactPercent c t - 1"
    using percent_floor(2) [of t c] by blast
qed

theorem age_distribution_witness:
  "[15, 25, 45, 70] \<noteq> ([] :: int list) \<and> length [15, 25, 45, 70 :: int] < 2 ^ 32 \<and>
   (0 :: nat) < 4 \<and> (1 :: nat) \<le> 4 \<and> (4 :: nat) < 2 ^ 32 \<and>
   \<not> percentTie 1 4 \<and> percentOf 1 4 = exactPercent 1 4 \<and> exactPercent 1 4 = 25 \<and>
   length (filter (\<lambda>a. a \<le> 20) [15, 25, 45, 70 :: int]) = 1 \<and>
   length (filter (\<lambda>a. 20 < a \<and> a \<le> 40) [15, 25, 45, 70 :: int]) = 1 \<and>
   length (filter (\<lambda>a. 40 < a \<and> a \<le> 60) [15, 25, 45, 70 :: int]) = 1 \<and>
   length (filter (\<lambda>a. 60 < a) [15, 25, 45, 70 :: int]) = 1 \<and>
   lt20 (countGroups [15, 25, 45, 70]) = 1 \<and> gt60 (countGroups [15, 25, 45, 70]) = 1 \<and>
   printAgeDistribution [15, 25, 45, 70]
     = Some \<lparr>p_lt20 = 25, p_20_40 = 25, p_40_60 = 25, p_gt60 = 25\<rparr>"
proof -
  note t = age_distribution [of "[15, 25, 45, 70]" 4 1]
  have h: "(0 :: nat) < 4 \<and> (1 :: nat) \<le> 4 \<and> (4 :: nat) < 2 ^ 32"
    by simp
  have ne: "[15, 25, 45, 70] \<noteq> ([] :: int list) \<and> length [15, 25, 45, 70 :: int] < 2 ^ 32"
    by simp
  have c: "length (filter (\<lambda>a. a \<le> 20) [15, 25, 45, 70 :: int]) = 1"
    "length (filter (\<lambda>a. 20 < a \<and> a \<le> 40) [15, 25, 45, 70 :: int]) = 1"
    "length (filter (\<lambda>a. 40 < a \<and> a \<le> 60) [15, 25, 45, 70 :: int]) = 1"
    "length (filter (\<lambda>a. 60 < a) [15, 25, 45, 70 :: int]) = 1"
    "length [15, 25, 45, 70 :: int] = 4"
    by simp_all
  have q: "halfUpOffTies x 1 4 \<longleftrightarrow> x = 25" for x
    using percent_quarter(1,2) by (simp add: halfUpOffTies_def)
  from t [THEN conjunct2, THEN conjunct2, THEN conjunct2, THEN conjunct2, THEN conjunct2,
      THEN conjunct2, THEN conjunct1, rule_format, OF ne]
  obtain p where p: "printAgeDistribution [15, 25, 45, 70] = Some p"
    "p_lt20 p = 25" "p_20_40 p = 25" "p_40_60 p = 25" "p_gt60 p = 25"
    unfolding c q by blast
  have "p = \<lparr>p_lt20 = 25, p_20_40 = 25, p_40_60 = 25, p_gt60 = 25\<rparr>"
    using p(2-5) by (cases p) simp
  with p(1) have out: "printAgeDistribution [15, 25, 45, 70]
     = Some \<lparr>p_lt20 = 25, p_20_40 = 25, p_40_60 = 25, p_gt60 = 25\<rparr>"
    by simp
  have e: "percentOf 1 4 = exactPercent 1 4"
    using t h percent_quarter(1) by blast
  have g: "lt20 (countGroups [15, 25, 45, 70]) = 1" "gt60 (countGroups [15, 25, 45, 70]) = 1"
    using t by simp_all
  from ne h percent_quarter(1,2) e c(1-4) g out show ?thesis
    by (intro conjI) simp_all
qed

text \<open>
  C7 as stated fails at a tie: of 40 ages, 23 in the first bucket are 57.5 percent, and
  \<open>23 / 40 * 100\<close> is \<open>57.49999999999999\<close> in double precision, which rounds to 57, not
  to 58.
\<close>

theorem age_distribution_counterexample:
  "printAgeDistribution (replicate 23 15 @ replicate 17 70)
     = Some \<lparr>p_lt20 = 57, p_20_40 = 0, p_40_60 = 0, p_gt60 = 43\<rparr> \<and>
   exactPercent 23 40 = 58"
proof -
  have "countGroups (replicate 23 15 @ replicate 17 70)
          = \<lparr>lt20 = 23, g20_40 = 0, g40_60 = 0, gt60 = 17\<rparr>"
    by (rule groups.equality) (simp_all add: countGroups_buckets)
  then show ?thesis
    by (simp add: printAgeDistribution_def groupPercents_def percentOf_23_40 percentOf_17_40
        percentOf_zero exactPercent_23_40)
qed

end
